theory Spec2Isabelle
  imports Main "HOL-Library.Multiset"
begin

section \<open>redaer: the feed-tracking engine (packages store and links)\<close>

text \<open>
  The Go code calls libraries: the HTTP client, the XML decoder, the HTML tokenizer,
  \<open>net/url\<close>, \<open>time\<close> and \<open>sort\<close>.  Their results are parameters of the
  model (the record \<open>world\<close> below); everything the repository itself computes is a
  definition here, named after the Go function it embeds.  Mutation of a
  \<open>*LinkDetails\<close> becomes a returned record; an \<open>error\<close> result becomes a value.
  A pass of \<open>checkLink\<close> over one record is sequential and is modelled whole; of
  \<open>CheckForUpdates\<close> only the records it hands to the workers are modelled.
\<close>

subsection \<open>Strings (package strings, fmt)\<close>

text \<open>
  Go strings are byte sequences.  \<open>ToLower\<close> maps the ASCII letters; the feed hints
  and URL suffixes it is compared against are ASCII.
\<close>

definition lowerChar :: "char \<Rightarrow> char" where
  "lowerChar c =
     (case map_of (zip ''ABCDEFGHIJKLMNOPQRSTUVWXYZ'' ''abcdefghijklmnopqrstuvwxyz'') c of
        Some l \<Rightarrow> l
      | None \<Rightarrow> c)"

definition ToLower :: "string \<Rightarrow> string" where
  "ToLower s = map lowerChar s"

definition HasPrefix :: "string \<Rightarrow> string \<Rightarrow> bool" where
  "HasPrefix s pref = (length pref \<le> length s \<and> take (length pref) s = pref)"

definition HasSuffix :: "string \<Rightarrow> string \<Rightarrow> bool" where
  "HasSuffix s suff =
     (length suff \<le> length s \<and> drop (length s - length suff) s = suff)"

fun Contains :: "string \<Rightarrow> string \<Rightarrow> bool" where
  "Contains [] substr = (substr = [])"
| "Contains (c # s) substr = (HasPrefix (c # s) substr \<or> Contains s substr)"

definition digit :: "nat \<Rightarrow> char" where
  "digit d = ''0123456789'' ! d"

function itoa_nat :: "nat \<Rightarrow> string" where
  "itoa_nat n = (if n < 10 then [digit n] else itoa_nat (n div 10) @ [digit (n mod 10)])"
  by pat_completeness auto
termination
  by (relation "measure id") auto

text \<open>The verb \<open>%d\<close> of \<open>fmt.Sprintf\<close> on an int.\<close>

definition itoa :: "int \<Rightarrow> string" where
  "itoa i = (if i < 0 then CHR ''-'' # itoa_nat (nat (- i)) else itoa_nat (nat i))"

subsection \<open>Errors (LinkError, IsTransient, MkError, MkTransientError)\<close>

text \<open>
  A Go \<open>error\<close> is either \<open>io.EOF\<close>, a \<open>*LinkError\<close> of this repository, or
  any other error value (of a library, or made by \<open>fmt.Errorf\<close>), kept with its
  message.
\<close>

datatype error =
    EOF
  | LinkError (Msg: string) (Transient: bool)
  | OtherError string

fun errorString :: "error \<Rightarrow> string" where
  "errorString EOF = ''EOF''"
| "errorString (LinkError m t) = (if t then ''TRANSIENT: '' @ m else m)"
| "errorString (OtherError m) = m"

fun IsTransient :: "error option \<Rightarrow> bool" where
  "IsTransient (Some (LinkError m t)) = t"
| "IsTransient _ = False"

definition MkError :: "string \<Rightarrow> error" where
  "MkError m = LinkError m False"

definition MkTransientError :: "string \<Rightarrow> error" where
  "MkTransientError m = LinkError m True"

subsection \<open>Time\<close>

text \<open>
  A \<open>time.Time\<close> is the number of nanoseconds since the zero Time (one clock: the
  monotonic reading Go may carry is not told apart); a \<open>time.Duration\<close> is an int64
  of nanoseconds, and \<open>Time.Sub\<close> saturates at its bounds.
\<close>

type_synonym Time = int

definition zeroTime :: Time where
  "zeroTime = 0"

definition Before :: "Time \<Rightarrow> Time \<Rightarrow> bool" where
  "Before t u = (t < u)"

definition After :: "Time \<Rightarrow> Time \<Rightarrow> bool" where
  "After t u = (u < t)"

definition maxDuration :: int where
  "maxDuration = 2 ^ 63 - 1"

definition minDuration :: int where
  "minDuration = - (2 ^ 63)"

definition time_Sub :: "Time \<Rightarrow> Time \<Rightarrow> int" where
  "time_Sub t u =
     (let d = t - u
      in if d > maxDuration then maxDuration else if d < minDuration then minDuration else d)"

definition minCheckDuration :: int where
  "minCheckDuration = 300000000000"

subsection \<open>The data model (store.go)\<close>

datatype LinkState =
    LinkIsNew
  | LinkNoFeedFound
  | LinkTransientError
  | LinkHasFeed
  | LinkIgnore

text \<open>
  Field names are global in a theory, so the fields of \<open>Article\<close> and of
  \<open>links.Link\<close> carry a prefix: \<open>ArtUrl\<close>, \<open>ArtTitle\<close> are \<open>Article.Url\<close>,
  \<open>Article.Title\<close>, and \<open>LinkTitle\<close>, \<open>LinkUrl\<close> are \<open>Link.Title\<close>,
  \<open>Link.Url\<close>.
\<close>

record Article =
  ArtUrl :: string
  ArtTitle :: string
  PubDate :: Time

record LinkDetails =
  BaseUrl :: string
  State :: LinkState
  FeedUrl :: string
  LastError :: "error option"
  Title :: string
  LastRead :: Time
  LastChecked :: Time
  Articles :: "Article list"

text \<open>
  \<open>Links\<close> maps a base URL to its record (the Go map holds pointers; a record's
  identity is its key).  The HTTP client of the store is part of the \<open>world\<close>.
\<close>

record LinkStore =
  Links :: "string \<rightharpoonup> LinkDetails"
  noted :: "string list"

record Link =
  LinkTitle :: string
  LinkUrl :: string

definition emptyArticle :: Article where
  "emptyArticle = \<lparr>ArtUrl = [], ArtTitle = [], PubDate = zeroTime\<rparr>"

definition newStore :: LinkStore where
  "newStore = \<lparr>Links = Map.empty, noted = []\<rparr>"

definition UnreadArticles :: "LinkDetails \<Rightarrow> Article list" where
  "UnreadArticles ld = filter (\<lambda>art. Before (LastRead ld) (PubDate art)) (Articles ld)"

definition latestPubDate :: "Article list \<Rightarrow> Time" where
  "latestPubDate arts =
     foldl (\<lambda>latest art. if After (PubDate art) latest then PubDate art else latest)
       zeroTime arts"

definition MarkAllAsRead :: "LinkDetails \<Rightarrow> LinkDetails" where
  "MarkAllAsRead ld =
     (let latest = latestPubDate (Articles ld)
      in if After latest (LastRead ld) then ld\<lparr>LastRead := latest\<rparr> else ld)"

definition InterestedIn :: "LinkStore \<Rightarrow> string \<Rightarrow> string \<Rightarrow> LinkStore" where
  "InterestedIn ls url title =
     (let ls' =
        (case Links ls url of
           None \<Rightarrow>
             ls\<lparr>Links := (Links ls)(url \<mapsto>
               \<lparr>BaseUrl = url, State = LinkIsNew, FeedUrl = [], LastError = None,
                Title = title, LastRead = zeroTime, LastChecked = zeroTime,
                Articles = []\<rparr>)\<rparr>
         | Some _ \<Rightarrow> ls)
      in ls'\<lparr>noted := noted ls' @ [url]\<rparr>)"

text \<open>
  \<open>CheckForUpdates\<close> sends \<open>store.Links[base]\<close> on the channel \<open>linkIn\<close> for each
  \<open>base\<close> of \<open>store.noted\<close>, in order.  The sequence of records sent is modelled;
  the scheduling of the eight workers that receive them is not.
\<close>

definition CheckForUpdates_linkIn :: "LinkStore \<Rightarrow> (string \<times> LinkDetails option) list" where
  "CheckForUpdates_linkIn store = map (\<lambda>base. (base, Links store base)) (noted store)"

definition ErrorOccurred :: "LinkDetails \<Rightarrow> error \<Rightarrow> LinkDetails" where
  "ErrorOccurred link err = link\<lparr>State := LinkTransientError, LastError := Some err\<rparr>"

subsection \<open>The libraries the engine calls\<close>

text \<open>
  An \<open>xml.Decoder\<close> is the list of tokens it has still to deliver and the error it
  reports after them (\<open>io.EOF\<close> at the end of a well-formed document, a syntax error
  where the strict decoder rejects the input, as it does for a closing tag that does not
  match the open element).  The error is sticky, as in Go.  Element and attribute names
  are their \<open>Name.Local\<close>; comments, directives and processing instructions are
  \<open>OtherToken\<close>.
\<close>

datatype xml_Token =
    StartElement string "(string \<times> string) list"
  | EndElement string
  | CharData string
  | OtherToken

type_synonym xml_Decoder = "xml_Token list \<times> error"

text \<open>
  An \<open>html.Tokenizer\<close> likewise: its tokens, then \<open>ErrorToken\<close> with the error
  \<open>parser.Err()\<close>.  An attribute is its \<open>(Key, Val)\<close>.
\<close>

datatype html_TokenType =
    TextToken
  | StartTagToken
  | EndTagToken
  | SelfClosingTagToken
  | CommentToken
  | DoctypeToken

record html_Token =
  Type :: html_TokenType
  Data :: string
  Attr :: "(string \<times> string) list"

type_synonym html_Tokenizer = "html_Token list \<times> error"

record Response =
  StatusCode :: int
  Status :: string
  ContentType :: "string list"
  Body :: string

text \<open>
  \<open>client_Get\<close> answers a GET; its first argument is the list of URLs requested so
  far, so that a server may answer the same URL differently each time.  Every function
  that performs requests takes that list and returns it extended.  \<open>ContentType\<close> is
  \<open>resp.Header["Content-Type"]\<close>.  \<open>'u\<close> is \<open>*url.URL\<close>.  \<open>sort_Sort\<close> is
  \<open>sort.Sort\<close> on an \<open>ArticleArray\<close>, given its \<open>Less\<close>.
\<close>

record 'u world =
  client_Get :: "string list \<Rightarrow> string \<Rightarrow> error + Response"
  url_Parse :: "string \<Rightarrow> error + 'u"
  url_ResolveReference :: "'u \<Rightarrow> 'u \<Rightarrow> 'u"
  url_String :: "'u \<Rightarrow> string"
  xml_NewDecoder :: "string \<Rightarrow> xml_Decoder"
  html_NewTokenizer :: "string \<Rightarrow> html_Tokenizer"
  time_Parse :: "string \<Rightarrow> string \<Rightarrow> Time option"
  sort_Sort :: "(Article \<Rightarrow> Article \<Rightarrow> bool) \<Rightarrow> Article list \<Rightarrow> Article list"

subsection \<open>Link extraction (links/htmlextract.go)\<close>

definition findAttr :: "(string \<times> string) list \<Rightarrow> string \<Rightarrow> (string \<times> string) option" where
  "findAttr attrs name = find (\<lambda>att. fst att = name) attrs"

definition checkForLINK :: "html_Token \<Rightarrow> Link option" where
  "checkForLINK tok =
     (if Data tok \<noteq> ''link'' then None
      else case findAttr (Attr tok) ''href'' of
             None \<Rightarrow> None
           | Some href \<Rightarrow>
               Some \<lparr>LinkTitle =
                       (case findAttr (Attr tok) ''type'' of
                          Some tyattr \<Rightarrow> snd tyattr
                        | None \<Rightarrow> ''Some Link''),
                     LinkUrl = snd href\<rparr>)"

text \<open>The loop \<open>tokLoop\<close>: the title collected, or the error, and the tokenizer after it.\<close>

fun tokLoop :: "int \<Rightarrow> string \<Rightarrow> html_Tokenizer \<Rightarrow> (error + string) \<times> html_Tokenizer" where
  "tokLoop depth title ([], e) =
     (Inl (if e = EOF then OtherError ''EOF while parsing anchor body.'' else e), ([], e))"
| "tokLoop depth title (tok # ts, e) =
     (case Type tok of
        StartTagToken \<Rightarrow> tokLoop (depth + 1) title (ts, e)
      | EndTagToken \<Rightarrow>
          (if depth - 1 < 0 then (Inr title, (ts, e)) else tokLoop (depth - 1) title (ts, e))
      | TextToken \<Rightarrow> tokLoop depth (title @ Data tok) (ts, e)
      | _ \<Rightarrow> tokLoop depth title (ts, e))"

definition checkForAnchor ::
  "html_Token \<Rightarrow> html_Tokenizer \<Rightarrow> Link list \<Rightarrow> Link list \<times> error option \<times> html_Tokenizer" where
  "checkForAnchor startTok parser links =
     (if Data startTok \<noteq> ''a'' then (links, None, parser)
      else case findAttr (Attr startTok) ''href'' of
             None \<Rightarrow> (links, None, parser)
           | Some href \<Rightarrow>
               (case tokLoop 0 [] parser of
                  (Inl err, parser') \<Rightarrow> (links, Some err, parser')
                | (Inr title, parser') \<Rightarrow>
                    (if title = [] then
                       (case findAttr (Attr startTok) ''title'' of
                          Some t \<Rightarrow>
                            (links @ [\<lparr>LinkTitle = snd t, LinkUrl = snd href\<rparr>], None, parser')
                        | None \<Rightarrow> (links, None, parser'))
                     else (links @ [\<lparr>LinkTitle = title, LinkUrl = snd href\<rparr>], None, parser'))))"

definition checkTag ::
  "html_Token \<Rightarrow> html_Tokenizer \<Rightarrow> Link list \<Rightarrow> Link list \<times> error option \<times> html_Tokenizer" where
  "checkTag startTok parser links =
     (if Data startTok = ''a'' \<and> Type startTok = StartTagToken then
        checkForAnchor startTok parser links
      else if Data startTok = ''link'' then
        (case checkForLINK startTok of
           Some lnk \<Rightarrow> (links @ [lnk], None, parser)
         | None \<Rightarrow> (links, None, parser))
      else (links, None, parser))"

lemma tokLoop_length: "tokLoop depth title p = (r, p') \<Longrightarrow> length (fst p') \<le> length (fst p)"
proof (induction depth title p rule: tokLoop.induct)
  case (1 depth title e)
  then show ?case by auto
next
  case (2 depth title tok ts e)
  then show ?case
    by (cases "Type tok") (auto split: if_splits)
qed

lemma checkTag_length:
  "checkTag tok p links = (links', err, p') \<Longrightarrow> length (fst p') \<le> length (fst p)"
  by (auto simp: checkTag_def checkForAnchor_def split: if_splits option.splits prod.splits sum.splits
      dest: tokLoop_length)

function ExtractLoop :: "html_Tokenizer \<Rightarrow> Link list \<Rightarrow> Link list \<times> error option" where
  "ExtractLoop ([], e) rv = (rv, if e = EOF then None else Some e)"
| "ExtractLoop (tok # ts, e) rv =
     (if Type tok = SelfClosingTagToken \<or> Type tok = StartTagToken then
        (case checkTag tok (ts, e) rv of
           (rv', Some err, parser') \<Rightarrow> (rv', Some err)
         | (rv', None, parser') \<Rightarrow> ExtractLoop parser' rv')
      else ExtractLoop (ts, e) rv)"
  by pat_completeness auto
termination
  apply (relation "measure (\<lambda>(p, rv). length (fst p))")
    apply simp
   apply (auto dest!: checkTag_length [OF sym])
  done

definition Extract :: "html_Tokenizer \<Rightarrow> Link list \<times> error option" where
  "Extract parser = ExtractLoop parser []"

subsection \<open>Feed discovery (store/feed.go)\<close>

definition feedHints :: "string list" where
  "feedHints = [''rss'', ''atom'', ''feed'']"

definition urlSuffixes :: "string list" where
  "urlSuffixes =
     [''atom.xml'', ''rss.xml'', ''feed.xml'', ''feed=rss2'', ''feed=atom'', ''feed=rss'', ''feed'']"

definition namedLikeFeedLink :: "Link \<Rightarrow> bool" where
  "namedLikeFeedLink link =
     (let t = ToLower (LinkTitle link)
      in if list_ex (\<lambda>cand. Contains t cand) feedHints then True
         else let u = ToLower (LinkUrl link)
              in list_ex (\<lambda>cand. u = cand \<or> HasSuffix u cand) urlSuffixes)"

definition forceAbsolute :: "'u world \<Rightarrow> string \<Rightarrow> string \<Rightarrow> error + string" where
  "forceAbsolute w base maybeRel =
     (case url_Parse w maybeRel of
        Inl err \<Rightarrow> Inl err
      | Inr maybeRelU \<Rightarrow>
          (case url_Parse w base of
             Inl err \<Rightarrow> Inl err
           | Inr baseU \<Rightarrow> Inr (url_String w (url_ResolveReference w baseU maybeRelU))))"

definition makeFeedRequest ::
  "'u world \<Rightarrow> string list \<Rightarrow> string \<Rightarrow> string \<Rightarrow> string list \<times> (error + Response)" where
  "makeFeedRequest w reqs baseUrl reqUrl =
     (case forceAbsolute w baseUrl reqUrl of
        Inl err \<Rightarrow> (reqs, Inl err)
      | Inr absU \<Rightarrow>
          (case client_Get w reqs absU of
             Inl err \<Rightarrow> (reqs @ [absU], Inl err)
           | Inr resp \<Rightarrow>
               (if StatusCode resp \<noteq> 200
                then (reqs @ [absU], Inl (MkError (''Bad response: '' @ Status resp)))
                else (reqs @ [absU], Inr resp))))"

definition contentTypes :: "string list" where
  "contentTypes =
     [''text/xml'', ''text/plain'', ''application/xml'', ''application/rss+xml'',
      ''application/atom+xml'']"

definition validFeedContentType :: "string list \<Rightarrow> bool" where
  "validFeedContentType ct = list_ex (\<lambda>c. list_ex (\<lambda>pref. HasPrefix c pref) contentTypes) ct"

fun firstStartElement ::
  "xml_Decoder \<Rightarrow> error + ((string \<times> (string \<times> string) list) \<times> xml_Decoder)" where
  "firstStartElement ([], e) = Inl (MkError ''No start element found.'')"
| "firstStartElement (StartElement name attrs # ts, e) = Inr ((name, attrs), (ts, e))"
| "firstStartElement (t # ts, e) = firstStartElement (ts, e)"

subsection \<open>The feed parser (store/feed.go)\<close>

definition formats :: "string list" where
  "formats =
     [''02 Jan 06 15:04 MST'', ''02 Jan 06 15:04 -0700'', ''Mon, 02 Jan 2006 15:04:05 MST'',
      ''Mon, 02 Jan 2006 15:04:05 -0700'', ''2006-01-02T15:04:05Z07:00'', ''2006-1-2'']"

fun parseTime_loop :: "'u world \<Rightarrow> string list \<Rightarrow> string \<Rightarrow> error + Time" where
  "parseTime_loop w [] accum = Inl (MkError (''Could not parse time: '' @ accum))"
| "parseTime_loop w (format # fs) accum =
     (case time_Parse w format accum of
        Some tm \<Rightarrow> Inr tm
      | None \<Rightarrow> parseTime_loop w fs accum)"

definition parseTime :: "'u world \<Rightarrow> string \<Rightarrow> error + Time" where
  "parseTime w accum = parseTime_loop w formats accum"

text \<open>The loop over \<open>t.Attr\<close> of an Atom \<open>link\<close>: the last \<open>href\<close> wins.\<close>

fun hrefLoop :: "(string \<times> string) list \<Rightarrow> Article \<Rightarrow> bool \<Rightarrow> Article \<times> bool" where
  "hrefLoop [] rv found = (rv, found)"
| "hrefLoop (attr # attrs) rv found =
     (if fst attr = ''href'' then hrefLoop attrs (rv\<lparr>ArtUrl := snd attr\<rparr>) True
      else hrefLoop attrs rv found)"

text \<open>
  \<open>genericExtractArticle\<close> is a loop with the variables \<open>accum\<close> and \<open>rv\<close>,
  started at \<open>accum = ""\<close>, \<open>rv = Article{}\<close>.  Its body, the \<open>switch\<close> on one
  token, either goes round again with new values of the two or returns.  The loop returns
  the article or the error, and the decoder where it stopped.
\<close>

datatype extractStep =
    Continue string Article
  | Return "error + Article"

definition genericExtractArticle_switch ::
  "'u world \<Rightarrow> bool \<Rightarrow> string \<Rightarrow> Article \<Rightarrow> xml_Token \<Rightarrow> extractStep" where
  "genericExtractArticle_switch w looksLikeAtom accum rv t =
     (case t of
        StartElement name attrs \<Rightarrow>
          (if looksLikeAtom \<and> name = ''link'' then
             (case hrefLoop attrs rv False of
                (rv', found) \<Rightarrow>
                  (if \<not> found
                   then Return (Inl (MkError ''Could not find HREF attribute for ENTRY LINK.''))
                   else Continue [] rv'))
           else Continue [] rv)
      | EndElement name \<Rightarrow>
          (if name = ''item'' \<or> name = ''entry'' then Return (Inr rv)
           else if name = ''title'' then Continue accum (rv\<lparr>ArtTitle := ArtTitle rv @ accum\<rparr>)
           else if name = ''link'' then
             (if \<not> looksLikeAtom then Continue accum (rv\<lparr>ArtUrl := accum\<rparr>)
              else Continue accum rv)
           else if name = ''pubDate'' \<or> name = ''updated'' \<or> name = ''date'' then
             (case parseTime w accum of
                Inl err \<Rightarrow> Return (Inl err)
              | Inr tm \<Rightarrow> Continue accum (rv\<lparr>PubDate := tm\<rparr>))
           else Continue accum rv)
      | CharData s \<Rightarrow> Continue (accum @ s) rv
      | OtherToken \<Rightarrow> Continue accum rv)"

fun genericExtractArticle_loop ::
  "'u world \<Rightarrow> bool \<Rightarrow> string \<Rightarrow> Article \<Rightarrow> xml_Decoder \<Rightarrow> (error + Article) \<times> xml_Decoder" where
  "genericExtractArticle_loop w looksLikeAtom accum rv ([], e) = (Inl e, ([], e))"
| "genericExtractArticle_loop w looksLikeAtom accum rv (t # ts, e) =
     (case genericExtractArticle_switch w looksLikeAtom accum rv t of
        Return r \<Rightarrow> (r, (ts, e))
      | Continue accum' rv' \<Rightarrow> genericExtractArticle_loop w looksLikeAtom accum' rv' (ts, e))"

definition genericExtractArticle ::
  "'u world \<Rightarrow> xml_Decoder \<Rightarrow> LinkDetails \<Rightarrow> bool \<Rightarrow> (error + Article) \<times> xml_Decoder" where
  "genericExtractArticle w ring link looksLikeAtom =
     genericExtractArticle_loop w looksLikeAtom [] emptyArticle ring"

lemma genericExtractArticle_loop_length:
  "genericExtractArticle_loop w atom accum rv ring = (r, ring') \<Longrightarrow>
   length (fst ring') \<le> length (fst ring)"
proof (induction w atom accum rv ring rule: genericExtractArticle_loop.induct)
  case (1 w looksLikeAtom accum rv e)
  then show ?case by simp
next
  case (2 w looksLikeAtom accum rv t ts e)
  then show ?case
    by (cases "genericExtractArticle_switch w looksLikeAtom accum rv t") auto
qed

text \<open>
  \<open>feedParser\<close> appends to \<open>link.Articles\<close> as it goes; it returns the error (or
  none) and the link so far.
\<close>

function feedParser ::
  "'u world \<Rightarrow> xml_Decoder \<Rightarrow> string \<times> (string \<times> string) list \<Rightarrow> LinkDetails
   \<Rightarrow> error option \<times> LinkDetails" where
  "feedParser w ([], e) root link = (if e = EOF then (None, link) else (Some e, link))"
| "feedParser w (StartElement name attrs # ts, e) root link =
     (let looksLikeAtom = (name = ''entry'')
      in if name = ''item'' \<or> looksLikeAtom then
           (case genericExtractArticle w (ts, e) link looksLikeAtom of
              (Inl err, ring') \<Rightarrow> (Some err, link)
            | (Inr art, ring') \<Rightarrow> feedParser w ring' root (link\<lparr>Articles := Articles link @ [art]\<rparr>))
         else feedParser w (ts, e) root link)"
| "feedParser w (EndElement name # ts, e) root link = feedParser w (ts, e) root link"
| "feedParser w (CharData s # ts, e) root link = feedParser w (ts, e) root link"
| "feedParser w (OtherToken # ts, e) root link = feedParser w (ts, e) root link"
  by pat_completeness auto
termination
  apply (relation "measure (\<lambda>(w, ring, root, link). length (fst ring))")
       apply simp
      apply (auto simp: genericExtractArticle_def dest!: genericExtractArticle_loop_length [OF sym])
  done

type_synonym 'u ArticleParser =
  "'u world \<Rightarrow> xml_Decoder \<Rightarrow> string \<times> (string \<times> string) list \<Rightarrow> LinkDetails
   \<Rightarrow> error option \<times> LinkDetails"

definition parseFunctionForFeed :: "string \<times> (string \<times> string) list \<Rightarrow> 'u ArticleParser option" where
  "parseFunctionForFeed root =
     (let tag = fst root
      in if tag = ''rss'' then Some feedParser
         else if tag = ''feed'' then Some feedParser
         else if tag = ''RDF'' then Some feedParser
         else None)"

definition recognizedFeedFormat :: "'u world \<Rightarrow> string \<Rightarrow> bool" where
  "recognizedFeedFormat w rd =
     (case firstStartElement (xml_NewDecoder w rd) of
        Inr (start, ring) \<Rightarrow> (parseFunctionForFeed start :: 'u ArticleParser option) \<noteq> None
      | Inl err \<Rightarrow> False)"

definition checkForFeedUrl ::
  "'u world \<Rightarrow> string list \<Rightarrow> string \<Rightarrow> Link \<Rightarrow> string list \<times> string \<times> bool" where
  "checkForFeedUrl w reqs baseUrl link =
     (if \<not> namedLikeFeedLink link then (reqs, [], False)
      else case makeFeedRequest w reqs baseUrl (LinkUrl link) of
             (reqs', Inl err) \<Rightarrow> (reqs', [], False)
           | (reqs', Inr resp) \<Rightarrow>
               (if validFeedContentType (ContentType resp) \<and> recognizedFeedFormat w (Body resp)
                then (reqs', LinkUrl link, True)
                else (reqs', [], False)))"

text \<open>The loop of \<open>findFeedUrl\<close> over the links of the page.\<close>

fun findFeedUrl_loop ::
  "'u world \<Rightarrow> string list \<Rightarrow> LinkDetails \<Rightarrow> Link list \<Rightarrow> string list \<times> (error + string)" where
  "findFeedUrl_loop w reqs ld [] =
     (reqs, Inl (MkTransientError (''findFeedUrl: No link found in main page for '' @ Title ld)))"
| "findFeedUrl_loop w reqs ld (link # links) =
     (case checkForFeedUrl w reqs (BaseUrl ld) link of
        (reqs', feedUrl, ok) \<Rightarrow>
          (if ok then (reqs', Inr feedUrl) else findFeedUrl_loop w reqs' ld links))"

definition findFeedUrl :: "'u world \<Rightarrow> string list \<Rightarrow> LinkDetails \<Rightarrow> string list \<times> (error + string)" where
  "findFeedUrl w reqs ld =
     (case client_Get w reqs (BaseUrl ld) of
        Inl err \<Rightarrow>
          (reqs @ [BaseUrl ld], Inl (MkTransientError (''findFeedUrl: '' @ errorString err)))
      | Inr resp \<Rightarrow>
          (if StatusCode resp = 200 then
             (case Extract (html_NewTokenizer w (Body resp)) of
                (links, Some err) \<Rightarrow>
                  (if length links = 0
                   then (reqs @ [BaseUrl ld],
                         Inl (MkTransientError (''findFeedUrl extract: '' @ errorString err)))
                   else findFeedUrl_loop w (reqs @ [BaseUrl ld]) ld links)
              | (links, None) \<Rightarrow> findFeedUrl_loop w (reqs @ [BaseUrl ld]) ld links)
           else if StatusCode resp \<ge> 500 then
             (reqs @ [BaseUrl ld],
              Inl (MkTransientError (''findFeedUrl: Server error '' @ Status resp)))
           else
             (reqs @ [BaseUrl ld],
              Inl (MkError (''Error '' @ itoa (StatusCode resp) @ '' reading '' @ BaseUrl ld)))))"

subsection \<open>Article refresh (store/feed.go) and the state machine (store.go)\<close>

text \<open>\<open>ArticleArray.Less\<close>, on the two elements it indexes.\<close>

definition ArticleArray_Less :: "Article \<Rightarrow> Article \<Rightarrow> bool" where
  "ArticleArray_Less a b = Before (PubDate a) (PubDate b)"

text \<open>
  What \<open>sort.Sort\<close> promises for this \<open>Less\<close>: the result is a permutation of
  the data in which no element is less than an earlier one.  Which permutation it is among
  articles of equal publish time is left open (\<open>sort.Sort\<close> is not stable).
\<close>

definition sort_Sort_contract :: "'u world \<Rightarrow> bool" where
  "sort_Sort_contract w =
     (\<forall>data. mset (sort_Sort w ArticleArray_Less data) = mset data
           \<and> sorted_wrt (\<lambda>a b. \<not> ArticleArray_Less b a) (sort_Sort w ArticleArray_Less data))"

text \<open>
  The loop of \<open>checkForArticles\<close> that guards against relative URLs: the articles with
  their URLs made absolute, or the first error.
\<close>

fun absoluteUrls :: "'u world \<Rightarrow> string \<Rightarrow> Article list \<Rightarrow> error + Article list" where
  "absoluteUrls w base [] = Inr []"
| "absoluteUrls w base (art # arts) =
     (case forceAbsolute w base (ArtUrl art) of
        Inl err \<Rightarrow> Inl err
      | Inr url \<Rightarrow>
          (case absoluteUrls w base arts of
             Inl err \<Rightarrow> Inl err
           | Inr arts' \<Rightarrow> Inr (art\<lparr>ArtUrl := url\<rparr> # arts')))"

text \<open>\<open>moment\<close> is the value of \<open>time.Now()\<close>.\<close>

definition checkForArticles ::
  "'u world \<Rightarrow> Time \<Rightarrow> string list \<Rightarrow> LinkDetails \<Rightarrow> string list \<times> LinkDetails" where
  "checkForArticles w moment reqs link0 =
     (let link = link0\<lparr>Articles := []\<rparr>;
          timeSinceLast = time_Sub moment (LastChecked link)
      in if timeSinceLast < minCheckDuration then (reqs, link)
         else case makeFeedRequest w reqs (BaseUrl link) (FeedUrl link) of
                (reqs', Inl err) \<Rightarrow> (reqs', ErrorOccurred link err)
              | (reqs', Inr resp) \<Rightarrow>
                  (case firstStartElement (xml_NewDecoder w (Body resp)) of
                     Inl err \<Rightarrow> (reqs', ErrorOccurred link err)
                   | Inr (first, ring) \<Rightarrow>
                       (case parseFunctionForFeed first of
                          None \<Rightarrow> (reqs', link)
                        | Some pfn \<Rightarrow>
                            (case pfn w ring first link of
                               (None, link1) \<Rightarrow>
                                 (let link2 =
                                    (if length (Articles link1) > 1
                                     then link1\<lparr>Articles :=
                                            sort_Sort w ArticleArray_Less (Articles link1)\<rparr>
                                     else link1)
                                  in case absoluteUrls w (BaseUrl link2) (Articles link2) of
                                       Inr arts \<Rightarrow>
                                         (reqs', link2\<lparr>Articles := arts, LastChecked := moment\<rparr>)
                                     | Inl err \<Rightarrow>
                                         (reqs', (ErrorOccurred link2 err)\<lparr>Articles := []\<rparr>))
                             | (Some err, link1) \<Rightarrow>
                                 (reqs', (ErrorOccurred link1 err)\<lparr>Articles := []\<rparr>)))))"

text \<open>
  The body of the loop of \<open>checkLink\<close>: the value it leaves in \<open>stateNeedsCheck\<close>,
  the requests made and the record.  \<open>moment\<close> is what \<open>time.Now()\<close> returns if
  \<open>checkForArticles\<close> is reached.
\<close>

definition checkLink_switch ::
  "'u world \<Rightarrow> Time \<Rightarrow> string list \<Rightarrow> LinkDetails \<Rightarrow> bool \<times> string list \<times> LinkDetails" where
  "checkLink_switch w moment reqs ld =
     (case State ld of
        LinkTransientError \<Rightarrow>
          (True, reqs, ld\<lparr>State := (if FeedUrl ld = [] then LinkIsNew else LinkHasFeed)\<rparr>)
      | LinkIsNew \<Rightarrow>
          (case findFeedUrl w reqs ld of
             (reqs', Inl err) \<Rightarrow>
               (if IsTransient (Some err) then (False, reqs', ErrorOccurred ld err)
                else (False, reqs', ld\<lparr>State := LinkNoFeedFound\<rparr>))
           | (reqs', Inr feedUrl) \<Rightarrow>
               (True, reqs', ld\<lparr>State := LinkHasFeed, FeedUrl := feedUrl\<rparr>))
      | LinkHasFeed \<Rightarrow>
          (case checkForArticles w moment reqs ld of (reqs', ld') \<Rightarrow> (False, reqs', ld'))
      | LinkIgnore \<Rightarrow> (False, reqs, ld)
      | LinkNoFeedFound \<Rightarrow> (False, reqs, ld))"

fun stateRank :: "LinkState \<Rightarrow> nat" where
  "stateRank LinkTransientError = 2"
| "stateRank LinkIsNew = 1"
| "stateRank _ = 0"

lemma checkLink_switch_rank:
  "checkLink_switch w moment reqs ld = (True, reqs', ld') \<Longrightarrow>
   stateRank (State ld') < stateRank (State ld)"
  by (cases "State ld")
     (auto simp: checkLink_switch_def split: prod.splits sum.splits if_splits)

function checkLink ::
  "'u world \<Rightarrow> Time \<Rightarrow> string list \<Rightarrow> LinkDetails \<Rightarrow> string list \<times> LinkDetails" where
  "checkLink w moment reqs ld =
     (case checkLink_switch w moment reqs ld of
        (stateNeedsCheck, reqs', ld') \<Rightarrow>
          (if stateNeedsCheck then checkLink w moment reqs' ld' else (reqs', ld')))"
  by pat_completeness auto
termination
  apply (relation "measure (\<lambda>(w, moment, reqs, ld). stateRank (State ld))")
   apply simp
  apply (auto dest!: checkLink_switch_rank [OF sym])
  done

declare checkLink.simps [simp del]

subsection \<open>Feed discovery in the words of the specification\<close>

text \<open>
  These four definitions follow the specification, not the code; the code is compared
  with them.  A candidate is a link whose lower-cased title contains a hint or whose
  lower-cased URL ends with (or is) a suffix.  A feed response has status 200, a
  content type beginning with a feed MIME type, and a body whose first start element is a
  feed root.  A link is accepted, after the requests \<open>reqs\<close>, when it is a candidate,
  its URL resolves against the base URL and the answer is a feed response.  The probes of
  a list of links are the resolved URLs of its candidates, in order.
\<close>

definition spec_candidate :: "Link \<Rightarrow> bool" where
  "spec_candidate link =
     ((\<exists>hint \<in> {''rss'', ''atom'', ''feed''}.
         \<exists>front rest. ToLower (LinkTitle link) = front @ hint @ rest)
      \<or> (\<exists>suffix \<in> {''atom.xml'', ''rss.xml'', ''feed.xml'', ''feed=rss2'', ''feed=atom'',
                       ''feed=rss'', ''feed''}.
           \<exists>front. ToLower (LinkUrl link) = front @ suffix))"

definition spec_feed_response :: "'u world \<Rightarrow> Response \<Rightarrow> bool" where
  "spec_feed_response w resp =
     (StatusCode resp = 200
      \<and> (\<exists>c \<in> set (ContentType resp).
            \<exists>pref \<in> {''text/xml'', ''text/plain'', ''application/xml'',
                       ''application/rss+xml'', ''application/atom+xml''}.
              \<exists>rest. c = pref @ rest)
      \<and> (\<exists>tag attrs ring.
            firstStartElement (xml_NewDecoder w (Body resp)) = Inr ((tag, attrs), ring)
            \<and> tag \<in> {''rss'', ''feed'', ''RDF''}))"

definition spec_accepted :: "'u world \<Rightarrow> string list \<Rightarrow> string \<Rightarrow> Link \<Rightarrow> bool" where
  "spec_accepted w reqs baseUrl link =
     (spec_candidate link
      \<and> (\<exists>absU resp. forceAbsolute w baseUrl (LinkUrl link) = Inr absU
            \<and> client_Get w reqs absU = Inr resp \<and> spec_feed_response w resp))"

definition spec_probes :: "'u world \<Rightarrow> string \<Rightarrow> Link list \<Rightarrow> string list" where
  "spec_probes w baseUrl links =
     concat (map (\<lambda>link.
       if spec_candidate link
       then (case forceAbsolute w baseUrl (LinkUrl link) of Inl err \<Rightarrow> [] | Inr absU \<Rightarrow> [absU])
       else []) links)"

subsection \<open>Tokens of an item that cannot fail\<close>

text \<open>
  Used to state when an item is parsed: a token is plain when the loop of
  \<open>genericExtractArticle\<close> passes over it without returning and without touching
  the publish time, that is, when it is not the closing tag of an item or entry, not the
  closing tag of a date element, and not an Atom \<open>link\<close> without \<open>href\<close>.
\<close>

definition plainToken :: "bool \<Rightarrow> xml_Token \<Rightarrow> bool" where
  "plainToken atom t =
     (case t of
        StartElement name attrs \<Rightarrow> atom \<and> name = ''link'' \<longrightarrow> ''href'' \<in> fst ` set attrs
      | EndElement name \<Rightarrow>
          name \<notin> {''item'', ''entry'', ''pubDate'', ''updated'', ''date''}
      | CharData s \<Rightarrow> True
      | OtherToken \<Rightarrow> True)"

subsection \<open>A small world for the examples\<close>

text \<open>
  The examples run the engine in worlds built from \<open>world0\<close>: every site is
  \<open>http://x\<close>, a URL parses unless it is \<open>%zz\<close>, only two dates parse, and
  \<open>sort.Sort\<close> is an insertion sort.
\<close>

fun insertBy :: "('a \<Rightarrow> 'a \<Rightarrow> bool) \<Rightarrow> 'a \<Rightarrow> 'a list \<Rightarrow> 'a list" where
  "insertBy lt x [] = [x]"
| "insertBy lt x (y # ys) = (if lt x y then x # y # ys else y # insertBy lt x ys)"

definition sortBy :: "('a \<Rightarrow> 'a \<Rightarrow> bool) \<Rightarrow> 'a list \<Rightarrow> 'a list" where
  "sortBy lt xs = foldr (insertBy lt) xs []"

definition resolve0 :: "string \<Rightarrow> string \<Rightarrow> string" where
  "resolve0 base rel =
     (if rel = [] then base else if HasPrefix rel ''/'' then ''http://x'' @ rel else rel)"

definition parse0 :: "string \<Rightarrow> string \<Rightarrow> Time option" where
  "parse0 format s =
     (if format = ''2006-1-2'' \<and> s = ''2020-1-2'' then Some 2000
      else if format = ''2006-1-2'' \<and> s = ''2020-1-3'' then Some 3000
      else None)"

definition world0 :: "string world" where
  "world0 =
     \<lparr>client_Get = (\<lambda>reqs u. Inl (OtherError ''connection refused'')),
      url_Parse = (\<lambda>s. if s = ''%zz'' then Inl (OtherError ''invalid URL escape'') else Inr s),
      url_ResolveReference = resolve0,
      url_String = (\<lambda>u. u),
      xml_NewDecoder = (\<lambda>body. ([], EOF)),
      html_NewTokenizer = (\<lambda>body. ([], EOF)),
      time_Parse = parse0,
      sort_Sort = sortBy\<rparr>"

definition art :: "string \<Rightarrow> Time \<Rightarrow> Article" where
  "art u t = \<lparr>ArtUrl = u, ArtTitle = ''t'', PubDate = t\<rparr>"

definition link0 :: LinkDetails where
  "link0 =
     \<lparr>BaseUrl = ''http://x/'', State = LinkHasFeed, FeedUrl = ''/feed.xml'', LastError = None,
      Title = ''X'', LastRead = 100, LastChecked = 5000000000000,
      Articles = [art ''/a'' 99, art ''/b'' 100, art ''/c'' 101, art ''/d'' 102]\<rparr>"

definition link_empty :: LinkDetails where
  "link_empty = link0\<lparr>Articles := []\<rparr>"

text \<open>
  \<open>world_rss\<close>: the page \<open>http://x/\<close> links to \<open>/feed.xml\<close>, an RSS feed of
  two items, newest first.
\<close>

definition rssTokens :: "xml_Token list" where
  "rssTokens =
     [OtherToken, StartElement ''rss'' [(''version'', ''2.0'')], StartElement ''channel'' [],
      StartElement ''title'' [], CharData ''X'', EndElement ''title'',
      StartElement ''item'' [],
        StartElement ''title'' [], CharData ''Second'', EndElement ''title'',
        StartElement ''link'' [], CharData ''/2'', EndElement ''link'',
        StartElement ''pubDate'' [], CharData ''2020-1-3'', EndElement ''pubDate'',
      EndElement ''item'',
      StartElement ''item'' [],
        StartElement ''title'' [], CharData ''First'', EndElement ''title'',
        StartElement ''link'' [], CharData ''/1'', EndElement ''link'',
        StartElement ''pubDate'' [], CharData ''2020-1-2'', EndElement ''pubDate'',
      EndElement ''item'',
      EndElement ''channel'', EndElement ''rss'']"

definition pageTokens :: "html_Token list" where
  "pageTokens =
     [\<lparr>Type = StartTagToken, Data = ''a'', Attr = [(''href'', ''/feed.xml'')]\<rparr>,
      \<lparr>Type = TextToken, Data = ''RSS Feed'', Attr = []\<rparr>,
      \<lparr>Type = EndTagToken, Data = ''a'', Attr = []\<rparr>,
      \<lparr>Type = StartTagToken, Data = ''a'', Attr = [(''href'', ''/about'')]\<rparr>,
      \<lparr>Type = TextToken, Data = ''About'', Attr = []\<rparr>,
      \<lparr>Type = EndTagToken, Data = ''a'', Attr = []\<rparr>]"

definition world_rss :: "string world" where
  "world_rss = world0
     \<lparr>client_Get := (\<lambda>reqs u.
        if u = ''http://x/''
        then Inr \<lparr>StatusCode = 200, Status = ''200 OK'', ContentType = [''text/html''],
                  Body = ''page''\<rparr>
        else if u = ''http://x/feed.xml''
        then Inr \<lparr>StatusCode = 200, Status = ''200 OK'',
                  ContentType = [''application/rss+xml''], Body = ''rss''\<rparr>
        else Inl (OtherError ''connection refused'')),
      xml_NewDecoder := (\<lambda>body. if body = ''rss'' then (rssTokens, EOF) else ([], EOF)),
      html_NewTokenizer := (\<lambda>body. if body = ''page'' then (pageTokens, EOF) else ([], EOF))\<rparr>"

text \<open>
  Records: \<open>link_read\<close> has been read up to time 500, past all its articles;
  \<open>link_failed\<close> is \<open>link_empty\<close> after a refused fetch; \<open>link_new\<close> is a
  new bookmark of the page; \<open>store1\<close> holds \<open>link0\<close>.  \<open>articles_rss\<close> are the
  two articles of the feed of \<open>world_rss\<close>, oldest first.
\<close>

definition link_read :: LinkDetails where
  "link_read = link0\<lparr>LastRead := 500\<rparr>"

definition link_failed :: LinkDetails where
  "link_failed =
     link_empty\<lparr>State := LinkTransientError, LastError := Some (OtherError ''connection refused'')\<rparr>"

definition link_new :: LinkDetails where
  "link_new =
     \<lparr>BaseUrl = ''http://x/'', State = LinkIsNew, FeedUrl = [], LastError = None,
      Title = ''X'', LastRead = zeroTime, LastChecked = zeroTime, Articles = []\<rparr>"

definition store1 :: LinkStore where
  "store1 = \<lparr>Links = [''http://x/'' \<mapsto> link0], noted = []\<rparr>"

definition articles_rss :: "Article list" where
  "articles_rss =
     [\<lparr>ArtUrl = ''http://x/1'', ArtTitle = ''First'', PubDate = 2000\<rparr>,
      \<lparr>ArtUrl = ''http://x/2'', ArtTitle = ''Second'', PubDate = 3000\<rparr>]"

text \<open>
  \<open>world_html\<close>: the feed URL answers with an HTML document.  \<open>world_bad\<close>: the
  feed has an item that is still open where \<open></channel>\<close> comes, which the decoder
  reports as \<open>syntaxError\<close>.
\<close>

definition world_html :: "string world" where
  "world_html = world0
     \<lparr>client_Get := (\<lambda>reqs u.
        if u = ''http://x/feed.xml''
        then Inr \<lparr>StatusCode = 200, Status = ''200 OK'', ContentType = [''text/xml''],
                  Body = ''html''\<rparr>
        else Inl (OtherError ''connection refused'')),
      xml_NewDecoder := (\<lambda>body.
        ([OtherToken, StartElement ''html'' [], StartElement ''body'' [], EndElement ''body'',
          EndElement ''html''], EOF))\<rparr>"

definition syntaxError :: error where
  "syntaxError = OtherError ''XML syntax error on line 7: element <item> closed by </channel>''"

definition world_bad :: "string world" where
  "world_bad = world0
     \<lparr>client_Get := (\<lambda>reqs u.
        if u = ''http://x/feed.xml''
        then Inr \<lparr>StatusCode = 200, Status = ''200 OK'',
                  ContentType = [''application/rss+xml''], Body = ''bad''\<rparr>
        else Inl (OtherError ''connection refused'')),
      xml_NewDecoder := (\<lambda>body.
        ([StartElement ''rss'' [], StartElement ''channel'' [], StartElement ''item'' [],
          StartElement ''title'' [], CharData ''Third'', EndElement ''title''],
         OtherError ''XML syntax error on line 7: element <item> closed by </channel>''))\<rparr>"

text \<open>
  \<open>itemTokens\<close>: what the decoder delivers after the start of an item that has a
  \<open>pubDate\<close> of 2 January and a \<open>date\<close> of 3 January.
\<close>

definition itemTokens :: "xml_Token list" where
  "itemTokens =
     [StartElement ''title'' [], CharData ''T'', EndElement ''title'',
      StartElement ''pubDate'' [], CharData ''2020-1-2'', EndElement ''pubDate'',
      StartElement ''date'' [], CharData ''2020-1-3'', EndElement ''date'',
      EndElement ''item'']"

text \<open>
  \<open>nextItem\<close>: a further item, with a date of its own, that follows in the document.
  \<open>link_early\<close>: a record last read before the zero time, with two articles after
  that and before the zero time.
\<close>

definition nextItem :: "xml_Token list" where
  "nextItem =
     [StartElement ''item'' [], StartElement ''pubDate'' [], CharData ''2020-1-2'',
      EndElement ''pubDate'', EndElement ''item'']"

definition link_early :: LinkDetails where
  "link_early = link0\<lparr>LastRead := - 10, Articles := [art ''/a'' (- 5), art ''/b'' (- 7)]\<rparr>"

text \<open>
  \<open>world_two\<close>: the page has four links: \<open>Atom\<close> (its request is refused),
  \<open>RSS Feed\<close> (the feed), \<open>Archive\<close> at \<open>/old/feed\<close>, and \<open>About\<close>.
\<close>

definition anchor :: "string \<Rightarrow> string \<Rightarrow> html_Token list" where
  "anchor href title =
     [\<lparr>Type = StartTagToken, Data = ''a'', Attr = [(''href'', href)]\<rparr>,
      \<lparr>Type = TextToken, Data = title, Attr = []\<rparr>,
      \<lparr>Type = EndTagToken, Data = ''a'', Attr = []\<rparr>]"

definition world_two :: "string world" where
  "world_two = world_rss
     \<lparr>html_NewTokenizer := (\<lambda>body.
        (anchor ''/atom.xml'' ''Atom'' @ anchor ''/feed.xml'' ''RSS Feed''
         @ anchor ''/old/feed'' ''Archive'' @ anchor ''/about'' ''About'', EOF))\<rparr>"

text \<open>
  \<open>world_self\<close>: the bookmark \<open>http://x/atom.xml\<close> is itself an Atom feed of one
  entry, and its self link has an empty \<open>href\<close>; \<open>atomPage\<close> is the document as
  the HTML tokenizer reads it, \<open>atomTokens\<close> as the XML decoder does.
  \<open>link_self\<close> is the record of that bookmark.
\<close>

definition atomTokens :: "xml_Token list" where
  "atomTokens =
     [StartElement ''feed'' [],
      StartElement ''link'' [(''rel'', ''self''), (''type'', ''application/atom+xml''), (''href'', [])],
      EndElement ''link'',
      StartElement ''entry'' [],
        StartElement ''title'' [], CharData ''Entry'', EndElement ''title'',
        StartElement ''link'' [(''href'', ''/e1'')], EndElement ''link'',
        StartElement ''updated'' [], CharData ''2020-1-2'', EndElement ''updated'',
      EndElement ''entry'',
      EndElement ''feed'']"

definition atomPage :: "html_Token list" where
  "atomPage =
     [\<lparr>Type = StartTagToken, Data = ''feed'', Attr = []\<rparr>,
      \<lparr>Type = SelfClosingTagToken, Data = ''link'',
        Attr = [(''rel'', ''self''), (''type'', ''application/atom+xml''), (''href'', [])]\<rparr>,
      \<lparr>Type = StartTagToken, Data = ''entry'', Attr = []\<rparr>,
      \<lparr>Type = StartTagToken, Data = ''title'', Attr = []\<rparr>,
      \<lparr>Type = TextToken, Data = ''Entry'', Attr = []\<rparr>,
      \<lparr>Type = EndTagToken, Data = ''title'', Attr = []\<rparr>,
      \<lparr>Type = SelfClosingTagToken, Data = ''link'', Attr = [(''href'', ''/e1'')]\<rparr>,
      \<lparr>Type = StartTagToken, Data = ''updated'', Attr = []\<rparr>,
      \<lparr>Type = TextToken, Data = ''2020-1-2'', Attr = []\<rparr>,
      \<lparr>Type = EndTagToken, Data = ''updated'', Attr = []\<rparr>,
      \<lparr>Type = EndTagToken, Data = ''entry'', Attr = []\<rparr>,
      \<lparr>Type = EndTagToken, Data = ''feed'', Attr = []\<rparr>]"

definition world_self :: "string world" where
  "world_self = world0
     \<lparr>client_Get := (\<lambda>reqs u.
        if u = ''http://x/atom.xml''
        then Inr \<lparr>StatusCode = 200, Status = ''200 OK'',
                  ContentType = [''application/atom+xml''], Body = ''atom''\<rparr>
        else Inl (OtherError ''connection refused'')),
      xml_NewDecoder := (\<lambda>body. (atomTokens, EOF)),
      html_NewTokenizer := (\<lambda>body. (atomPage, EOF))\<rparr>"

definition link_self :: LinkDetails where
  "link_self =
     \<lparr>BaseUrl = ''http://x/atom.xml'', State = LinkIsNew, FeedUrl = [], LastError = None,
      Title = ''Atom'', LastRead = zeroTime, LastChecked = zeroTime, Articles = []\<rparr>"

subsection \<open>Facts about the store\<close>

lemma time_Sub_less_minCheckDuration:
  "time_Sub t u < minCheckDuration \<longleftrightarrow> t - u < 300000000000"
  by (simp add: time_Sub_def minCheckDuration_def maxDuration_def minDuration_def Let_def)

lemma foldl_latest:
  "foldl (\<lambda>latest art. if After (PubDate art) latest then PubDate art else latest) t arts
   = Max (insert t (PubDate ` set arts))"
proof (induction arts arbitrary: t)
  case Nil
  then show ?case by simp
next
  case (Cons a arts)
  have "Max (insert (max t (PubDate a)) (PubDate ` set arts))
        = Max (insert t (insert (PubDate a) (PubDate ` set arts)))"
  proof (cases "arts = []")
    case True
    then show ?thesis by (simp add: max.commute)
  next
    case False
    then have "finite (PubDate ` set arts)" "PubDate ` set arts \<noteq> {}" by auto
    then show ?thesis by (simp add: max.assoc)
  qed
  then show ?case
    using Cons.IH [of "max t (PubDate a)"]
    by (auto simp: After_def max_def)
qed

subsection \<open>Facts about the refresh\<close>

lemma checkLink_HasFeed:
  "State ld = LinkHasFeed \<Longrightarrow> checkLink w moment reqs ld = checkForArticles w moment reqs ld"
  by (subst checkLink.simps) (simp add: checkLink_switch_def split: prod.splits)

lemma checkForArticles_skip:
  "moment - LastChecked ld < 300000000000 \<Longrightarrow>
   checkForArticles w moment reqs ld = (reqs, ld\<lparr>Articles := []\<rparr>)"
  by (simp add: checkForArticles_def Let_def time_Sub_less_minCheckDuration)

lemma feedParser_fields:
  "feedParser w ring root link = (err, link') \<Longrightarrow> link' = link\<lparr>Articles := Articles link'\<rparr>"
proof (induction w ring root link arbitrary: err link' rule: feedParser.induct)
  case (1 w e root link)
  then show ?case by (auto split: if_splits)
next
  case (2 w name attrs ts e root link)
  show ?case
  proof (cases "name = ''item'' \<or> name = ''entry''")
    case False
    with 2(3) have "feedParser w (ts, e) root link = (err, link')" by simp
    from 2(2) [OF refl False this] show ?thesis .
  next
    case True
    obtain r ring' where ga: "genericExtractArticle w (ts, e) link (name = ''entry'') = (r, ring')"
      by (cases "genericExtractArticle w (ts, e) link (name = ''entry'')")
    show ?thesis
    proof (cases r)
      case (Inl er)
      with 2(3) True ga show ?thesis by auto
    next
      case (Inr a)
      from 2(3) True ga Inr
      have "feedParser w ring' root (link\<lparr>Articles := Articles link @ [a]\<rparr>) = (err, link')"
        by auto
      from 2(1) [OF refl True ga [symmetric] Inr this]
      show ?thesis by simp
    qed
  qed
next
  case (3 w name ts e root link)
  then show ?case by simp
next
  case (4 w s ts e root link)
  then show ?case by simp
next
  case (5 w ts e root link)
  then show ?case by simp
qed

lemma parseFunctionForFeed_Some:
  "parseFunctionForFeed root = Some pfn \<Longrightarrow> pfn = feedParser"
  by (auto simp: parseFunctionForFeed_def Let_def split: if_splits)

lemma checkForArticles_result:
  "snd (checkForArticles w moment reqs ld) = ld\<lparr>Articles := []\<rparr>
   \<or> (\<exists>err. snd (checkForArticles w moment reqs ld)
          = ld\<lparr>State := LinkTransientError, LastError := Some err, Articles := []\<rparr>)
   \<or> (\<exists>xs arts. snd (checkForArticles w moment reqs ld)
          = ld\<lparr>LastChecked := moment, Articles := arts\<rparr>
        \<and> absoluteUrls w (BaseUrl ld) xs = Inr arts
        \<and> (length xs \<le> 1 \<or> (\<exists>parsed. xs = sort_Sort w ArticleArray_Less parsed)))"
  (is "?A \<or> ?B \<or> ?C")
proof (cases "time_Sub moment (LastChecked ld) < minCheckDuration")
  case True
  then have ?A by (simp add: checkForArticles_def)
  then show ?thesis by blast
next
  case late: False
  show ?thesis
  proof (cases "makeFeedRequest w reqs (BaseUrl ld) (FeedUrl ld)")
    case (Pair reqs' r)
    show ?thesis
    proof (cases r)
      case (Inl err)
      with late Pair
      have "snd (checkForArticles w moment reqs ld)
            = ld\<lparr>State := LinkTransientError, LastError := Some err, Articles := []\<rparr>"
        by (simp add: checkForArticles_def ErrorOccurred_def)
      then show ?thesis by blast
    next
      case (Inr resp)
      show ?thesis
      proof (cases "firstStartElement (xml_NewDecoder w (Body resp))")
        case (Inl err)
        with late Pair Inr
        have "snd (checkForArticles w moment reqs ld)
              = ld\<lparr>State := LinkTransientError, LastError := Some err, Articles := []\<rparr>"
          by (simp add: checkForArticles_def ErrorOccurred_def)
        then show ?thesis by blast
      next
        case fs: (Inr fr)
        obtain first ring where fr: "fr = (first, ring)" by (cases fr)
        show ?thesis
        proof (cases "parseFunctionForFeed first :: 'a ArticleParser option")
          case None
          with late Pair Inr fs fr have ?A
            by (simp add: checkForArticles_def)
          then show ?thesis by blast
        next
          case (Some pfn)
          then have pfn: "pfn = feedParser" by (rule parseFunctionForFeed_Some)
          obtain err arts1 where fp:
            "feedParser w ring first (ld\<lparr>Articles := []\<rparr>) = (err, ld\<lparr>Articles := arts1\<rparr>)"
          proof (cases "feedParser w ring first (ld\<lparr>Articles := []\<rparr>)")
            case (Pair err link1)
            from feedParser_fields [OF Pair] have "link1 = ld\<lparr>Articles := Articles link1\<rparr>"
              by simp
            with Pair that show ?thesis by metis
          qed
          define link1 where "link1 = ld\<lparr>Articles := arts1\<rparr>"
          have go: "checkForArticles w moment reqs ld =
             (case (err, link1) of
                (None, link1) \<Rightarrow>
                  (let link2 =
                     (if length (Articles link1) > 1
                      then link1\<lparr>Articles := sort_Sort w ArticleArray_Less (Articles link1)\<rparr>
                      else link1)
                   in case absoluteUrls w (BaseUrl link2) (Articles link2) of
                        Inr arts \<Rightarrow> (reqs', link2\<lparr>Articles := arts, LastChecked := moment\<rparr>)
                      | Inl err \<Rightarrow> (reqs', (ErrorOccurred link2 err)\<lparr>Articles := []\<rparr>))
              | (Some err, link1) \<Rightarrow> (reqs', (ErrorOccurred link1 err)\<lparr>Articles := []\<rparr>))"
            using late Pair Inr fs fr Some pfn fp
            by (simp add: checkForArticles_def link1_def)
          show ?thesis
          proof (cases err)
            case (Some er)
            have "snd (checkForArticles w moment reqs ld)
                  = (ErrorOccurred link1 er)\<lparr>Articles := []\<rparr>"
              using go Some by simp
            also have "\<dots> = ld\<lparr>State := LinkTransientError, LastError := Some er, Articles := []\<rparr>"
              by (simp add: ErrorOccurred_def link1_def)
            finally show ?thesis by blast
          next
            case None
            define xs where "xs = (if length (Articles link1) > 1
                           then sort_Sort w ArticleArray_Less (Articles link1) else Articles link1)"
            have xs: "length xs \<le> 1 \<or> (\<exists>parsed. xs = sort_Sort w ArticleArray_Less parsed)"
              unfolding xs_def by auto
            have go': "checkForArticles w moment reqs ld =
               (case absoluteUrls w (BaseUrl ld) xs of
                  Inr arts \<Rightarrow> (reqs', ld\<lparr>Articles := arts, LastChecked := moment\<rparr>)
                | Inl err \<Rightarrow> (reqs', (ErrorOccurred ld err)\<lparr>Articles := []\<rparr>))"
              unfolding go xs_def using None
              by (simp add: link1_def Let_def ErrorOccurred_def split: sum.splits)
            show ?thesis
            proof (cases "absoluteUrls w (BaseUrl ld) xs")
              case (Inl er)
              have "snd (checkForArticles w moment reqs ld)
                    = ld\<lparr>State := LinkTransientError, LastError := Some er, Articles := []\<rparr>"
                using go' Inl by (simp add: ErrorOccurred_def)
              then show ?thesis by blast
            next
              case (Inr arts)
              have "snd (checkForArticles w moment reqs ld)
                    = ld\<lparr>LastChecked := moment, Articles := arts\<rparr>"
                using go' Inr by simp
              with Inr xs show ?thesis by blast
            qed
          qed
        qed
      qed
    qed
  qed
qed


lemma checkForArticles_requests:
  "fst (checkForArticles w moment reqs ld) = reqs
   \<or> (\<exists>absU. forceAbsolute w (BaseUrl ld) (FeedUrl ld) = Inr absU
         \<and> fst (checkForArticles w moment reqs ld) = reqs @ [absU])"
proof (cases "time_Sub moment (LastChecked ld) < minCheckDuration")
  case True
  then show ?thesis by (simp add: checkForArticles_def)
next
  case late: False
  show ?thesis
  proof (cases "forceAbsolute w (BaseUrl ld) (FeedUrl ld)")
    case (Inl err)
    with late show ?thesis
      by (simp add: checkForArticles_def makeFeedRequest_def)
  next
    case (Inr absU)
    then have "fst (makeFeedRequest w reqs (BaseUrl ld) (FeedUrl ld)) = reqs @ [absU]"
      by (simp add: makeFeedRequest_def split: sum.splits)
    then have "fst (checkForArticles w moment reqs ld) = reqs @ [absU]"
      using late
      by (auto simp: checkForArticles_def Let_def split: prod.splits sum.splits option.splits)
    with Inr show ?thesis by blast
  qed
qed

lemma checkForArticles_FeedUrl:
  "FeedUrl (snd (checkForArticles w moment reqs ld)) = FeedUrl ld"
  using checkForArticles_result [of w moment reqs ld] by auto

lemma checkLink_TransientError_eq:
  "State ld = LinkTransientError \<Longrightarrow>
   checkLink w moment reqs ld
   = checkLink w moment reqs (ld\<lparr>State := (if FeedUrl ld = [] then LinkIsNew else LinkHasFeed)\<rparr>)"
  by (subst checkLink.simps) (simp add: checkLink_switch_def)

lemma checkLink_IsNew_eq:
  "State ld = LinkIsNew \<Longrightarrow>
   checkLink w moment reqs ld
   = (case findFeedUrl w reqs ld of
        (reqs', Inl err) \<Rightarrow>
          (reqs', if IsTransient (Some err) then ErrorOccurred ld err
                  else ld\<lparr>State := LinkNoFeedFound\<rparr>)
      | (reqs', Inr feedUrl) \<Rightarrow>
          checkForArticles w moment reqs' (ld\<lparr>State := LinkHasFeed, FeedUrl := feedUrl\<rparr>))"
  by (subst checkLink.simps)
     (simp add: checkLink_switch_def checkLink_HasFeed split: prod.splits sum.splits)

lemma checkLink_rest:
  "State ld = LinkIgnore \<or> State ld = LinkNoFeedFound \<Longrightarrow> checkLink w moment reqs ld = (reqs, ld)"
  by (subst checkLink.simps) (auto simp: checkLink_switch_def)

subsection \<open>Facts about the feed parser\<close>

lemma parseTime_loop_error:
  "parseTime_loop w fs accum = Inl err \<Longrightarrow> err = MkError (''Could not parse time: '' @ accum)"
  by (induction fs) (auto split: option.splits)

lemma parseTime_error:
  "parseTime w accum = Inl err \<Longrightarrow> err = MkError (''Could not parse time: '' @ accum)"
  unfolding parseTime_def by (rule parseTime_loop_error)

lemma switch_EndElement_error:
  assumes "genericExtractArticle_switch w atom accum rv (EndElement name) = Return (Inl err)"
  shows "parseTime w accum = Inl err"
proof (cases "parseTime w accum")
  case (Inl e)
  with assms show ?thesis
    by (simp add: genericExtractArticle_switch_def split: if_splits)
next
  case (Inr tm)
  with assms show ?thesis
    by (simp add: genericExtractArticle_switch_def split: if_splits)
qed

lemma switch_StartElement_error:
  assumes "genericExtractArticle_switch w atom accum rv (StartElement name attrs) = Return (Inl err)"
  shows "err = MkError ''Could not find HREF attribute for ENTRY LINK.''"
proof (cases "hrefLoop attrs rv False")
  case (Pair rv' found)
  with assms show ?thesis
    by (simp add: genericExtractArticle_switch_def split: if_splits)
qed

lemma switch_error_permanent:
  assumes "genericExtractArticle_switch w atom accum rv t = Return (Inl err)"
  shows "\<not> IsTransient (Some err)"
proof (cases t)
  case (StartElement name attrs)
  with assms show ?thesis
    by (auto dest!: switch_StartElement_error simp: MkError_def)
next
  case (EndElement name)
  with assms have "parseTime w accum = Inl err"
    by (auto dest: switch_EndElement_error)
  then show ?thesis by (auto dest: parseTime_error simp: MkError_def)
next
  case (CharData s)
  with assms show ?thesis by (simp add: genericExtractArticle_switch_def)
next
  case OtherToken
  with assms show ?thesis by (simp add: genericExtractArticle_switch_def)
qed

lemma loop_decoder_error:
  "genericExtractArticle_loop w atom accum rv (ts, e) = (r, ring') \<Longrightarrow> snd ring' = e"
proof (induction ts arbitrary: accum rv)
  case Nil
  then show ?case by auto
next
  case (Cons t ts)
  then show ?case
    by (cases "genericExtractArticle_switch w atom accum rv t") auto
qed

lemma loop_error_permanent:
  "genericExtractArticle_loop w atom accum rv (ts, e) = (Inl err, ring') \<Longrightarrow>
   \<not> IsTransient (Some e) \<Longrightarrow> \<not> IsTransient (Some err)"
proof (induction ts arbitrary: accum rv)
  case Nil
  then show ?case by simp
next
  case (Cons t ts)
  show ?case
  proof (cases "genericExtractArticle_switch w atom accum rv t")
    case (Continue accum' rv')
    with Cons show ?thesis by simp
  next
    case (Return r)
    with Cons.prems have "r = Inl err" by simp
    with Return show ?thesis by (auto dest: switch_error_permanent)
  qed
qed

lemma feedParser_error_permanent:
  "feedParser w ring root link = (Some err, link') \<Longrightarrow>
   \<not> IsTransient (Some (snd ring)) \<Longrightarrow> \<not> IsTransient (Some err)"
proof (induction w ring root link arbitrary: err link' rule: feedParser.induct)
  case (1 w e root link)
  then show ?case by (auto split: if_splits)
next
  case (2 w name attrs ts e root link)
  show ?case
  proof (cases "name = ''item'' \<or> name = ''entry''")
    case False
    with 2(3) have "feedParser w (ts, e) root link = (Some err, link')" by simp
    from 2(2) [OF refl False this] 2(4) show ?thesis by simp
  next
    case True
    obtain r ring' where ga: "genericExtractArticle w (ts, e) link (name = ''entry'') = (r, ring')"
      by (cases "genericExtractArticle w (ts, e) link (name = ''entry'')")
    show ?thesis
    proof (cases r)
      case (Inl er)
      with 2(3) True ga have "er = err" by auto
      with ga Inl 2(4) show ?thesis
        by (auto simp: genericExtractArticle_def dest: loop_error_permanent)
    next
      case (Inr a)
      from 2(3) True ga Inr
      have fp: "feedParser w ring' root (link\<lparr>Articles := Articles link @ [a]\<rparr>) = (Some err, link')"
        by auto
      have "snd ring' = e"
        using ga by (auto simp: genericExtractArticle_def dest: loop_decoder_error)
      with 2(1) [OF refl True ga [symmetric] Inr fp] 2(4)
      show ?thesis by simp
    qed
  qed
next
  case (3 w name ts e root link)
  then show ?case by simp
next
  case (4 w s ts e root link)
  then show ?case by simp
next
  case (5 w ts e root link)
  then show ?case by simp
qed


lemma feedParser_fails:
  "snd ring \<noteq> EOF \<Longrightarrow> fst (feedParser w ring root link) \<noteq> None"
proof (induction w ring root link rule: feedParser.induct)
  case (1 w e root link)
  then show ?case by simp
next
  case (2 w name attrs ts e root link)
  show ?case
  proof (cases "name = ''item'' \<or> name = ''entry''")
    case False
    with 2(2) [OF refl False] 2(3) show ?thesis by simp
  next
    case True
    obtain r ring' where ga: "genericExtractArticle w (ts, e) link (name = ''entry'') = (r, ring')"
      by (cases "genericExtractArticle w (ts, e) link (name = ''entry'')")
    show ?thesis
    proof (cases r)
      case (Inl er)
      with True ga show ?thesis by auto
    next
      case (Inr a)
      have "snd ring' = e"
        using ga by (auto simp: genericExtractArticle_def dest: loop_decoder_error)
      with 2(1) [OF refl True ga [symmetric] Inr] 2(3) True ga Inr
      show ?thesis by auto
    qed
  qed
next
  case (3 w name ts e root link)
  then show ?case by simp
next
  case (4 w s ts e root link)
  then show ?case by simp
next
  case (5 w ts e root link)
  then show ?case by simp
qed


lemma parseTime_loop_Inr:
  "parseTime_loop w fs accum = Inr tm \<longleftrightarrow>
   (\<exists>i < length fs. time_Parse w (fs ! i) accum = Some tm
      \<and> (\<forall>j < i. time_Parse w (fs ! j) accum = None))"
proof (induction fs)
  case Nil
  then show ?case by simp
next
  case (Cons f fs)
  show ?case
  proof (cases "time_Parse w f accum")
    case (Some t)
    have "(\<exists>i < length (f # fs). time_Parse w ((f # fs) ! i) accum = Some tm
            \<and> (\<forall>j < i. time_Parse w ((f # fs) ! j) accum = None)) \<longleftrightarrow> t = tm"
      (is "?L \<longleftrightarrow> _")
    proof
      assume ?L
      then obtain i where i: "time_Parse w ((f # fs) ! i) accum = Some tm"
        "\<forall>j < i. time_Parse w ((f # fs) ! j) accum = None" by blast
      have "i = 0"
      proof (rule ccontr)
        assume "i \<noteq> 0"
        then have "0 < i" by simp
        with i(2) have "time_Parse w ((f # fs) ! 0) accum = None" by blast
        with Some show False by simp
      qed
      with i(1) Some show "t = tm" by simp
    next
      assume "t = tm"
      with Some have "time_Parse w ((f # fs) ! 0) accum = Some tm" by simp
      then show ?L by (intro exI [of _ 0]) simp
    qed
    with Some show ?thesis by auto
  next
    case None
    have "(\<exists>i < length (f # fs). time_Parse w ((f # fs) ! i) accum = Some tm
            \<and> (\<forall>j < i. time_Parse w ((f # fs) ! j) accum = None))
          \<longleftrightarrow> (\<exists>i < length fs. time_Parse w (fs ! i) accum = Some tm
            \<and> (\<forall>j < i. time_Parse w (fs ! j) accum = None))" (is "?L \<longleftrightarrow> ?R")
    proof
      assume ?L
      then obtain i where i: "i < length (f # fs)" "time_Parse w ((f # fs) ! i) accum = Some tm"
        "\<forall>j < i. time_Parse w ((f # fs) ! j) accum = None" by blast
      with None obtain k where k: "i = Suc k" by (cases i) auto
      have "\<forall>j < k. time_Parse w (fs ! j) accum = None"
      proof (intro allI impI)
        fix j assume "j < k"
        then have "Suc j < i" using k by simp
        with i(3) have "time_Parse w ((f # fs) ! Suc j) accum = None" by blast
        then show "time_Parse w (fs ! j) accum = None" by simp
      qed
      with i k show ?R by auto
    next
      assume ?R
      then obtain i where i: "i < length fs" "time_Parse w (fs ! i) accum = Some tm"
        "\<forall>j < i. time_Parse w (fs ! j) accum = None" by blast
      have "\<forall>j < Suc i. time_Parse w ((f # fs) ! j) accum = None"
      proof (intro allI impI)
        fix j assume "j < Suc i"
        then show "time_Parse w ((f # fs) ! j) accum = None"
          using None i(3) by (cases j) auto
      qed
      with i show ?L by (intro exI [of _ "Suc i"]) auto
    qed
    with None Cons.IH show ?thesis by simp
  qed
qed

lemma parseTime_loop_Inl:
  "parseTime_loop w fs accum = Inl err \<longleftrightarrow>
   (\<forall>f \<in> set fs. time_Parse w f accum = None) \<and> err = MkError (''Could not parse time: '' @ accum)"
  by (induction fs) (auto split: option.splits)


lemma switch_CharData:
  "genericExtractArticle_switch w atom accum rv (CharData s) = Continue (accum @ s) rv"
  by (simp add: genericExtractArticle_switch_def)

lemma switch_date_start:
  "name = ''pubDate'' \<or> name = ''updated'' \<or> name = ''date'' \<Longrightarrow>
   genericExtractArticle_switch w atom accum rv (StartElement name attrs) = Continue [] rv"
  by (auto simp: genericExtractArticle_switch_def)

lemma switch_date_end:
  "name = ''pubDate'' \<or> name = ''updated'' \<or> name = ''date'' \<Longrightarrow>
   genericExtractArticle_switch w atom accum rv (EndElement name)
   = (case parseTime w accum of
        Inl err \<Rightarrow> Return (Inl err)
      | Inr tm \<Rightarrow> Continue accum (rv\<lparr>PubDate := tm\<rparr>))"
  by (auto simp: genericExtractArticle_switch_def)

lemma hrefLoop_PubDate: "PubDate (fst (hrefLoop attrs rv found)) = PubDate rv"
  by (induction attrs rv found rule: hrefLoop.induct) auto

lemma switch_Return_Inr:
  assumes "genericExtractArticle_switch w atom accum rv t = Return (Inr x)"
  shows "(t = EndElement ''item'' \<or> t = EndElement ''entry'') \<and> x = rv"
proof (cases t)
  case (StartElement name attrs)
  with assms show ?thesis
    by (cases "hrefLoop attrs rv False")
       (simp add: genericExtractArticle_switch_def split: if_splits)
next
  case (EndElement name)
  with assms show ?thesis
    by (cases "parseTime w accum")
       (simp_all add: genericExtractArticle_switch_def split: if_splits)
next
  case (CharData s)
  with assms show ?thesis by (simp add: switch_CharData)
next
  case OtherToken
  with assms show ?thesis by (simp add: genericExtractArticle_switch_def)
qed

lemma switch_Continue_PubDate:
  assumes "genericExtractArticle_switch w atom accum rv t = Continue accum' rv'"
    and "t \<noteq> EndElement ''pubDate''" and "t \<noteq> EndElement ''updated''"
    and "t \<noteq> EndElement ''date''"
  shows "PubDate rv' = PubDate rv"
proof (cases t)
  case (StartElement name attrs)
  show ?thesis
  proof (cases "hrefLoop attrs rv False")
    case (Pair r found)
    with hrefLoop_PubDate [of attrs rv False] have "PubDate r = PubDate rv" by simp
    with assms(1) StartElement Pair show ?thesis
      by (auto simp: genericExtractArticle_switch_def split: if_splits)
  qed
next
  case (EndElement name)
  with assms show ?thesis
    by (cases "parseTime w accum")
       (auto simp: genericExtractArticle_switch_def split: if_splits)
next
  case (CharData s)
  with assms show ?thesis by (simp add: switch_CharData)
next
  case OtherToken
  with assms show ?thesis by (simp add: genericExtractArticle_switch_def)
qed

lemma loop_CharData:
  "genericExtractArticle_loop w atom accum rv (map CharData ss @ rest, e)
   = genericExtractArticle_loop w atom (accum @ concat ss) rv (rest, e)"
  by (induction ss arbitrary: accum) (simp_all add: switch_CharData)

lemma loop_date_element:
  assumes "name = ''pubDate'' \<or> name = ''updated'' \<or> name = ''date''"
  shows "genericExtractArticle_loop w atom accum rv
           (StartElement name attrs # map CharData ss @ EndElement name # post, e)
         = (case parseTime w (concat ss) of
              Inl err \<Rightarrow> (Inl err, (post, e))
            | Inr tm \<Rightarrow>
                genericExtractArticle_loop w atom (concat ss) (rv\<lparr>PubDate := tm\<rparr>) (post, e))"
  using assms
  by (simp add: switch_date_start loop_CharData switch_date_end split: sum.splits)

lemma loop_prefix:
  assumes "EndElement ''item'' \<notin> set pre" and "EndElement ''entry'' \<notin> set pre"
  shows "(\<exists>err ring'. genericExtractArticle_loop w atom accum rv (pre @ rest, e) = (Inl err, ring'))
       \<or> (\<exists>accum' rv'. genericExtractArticle_loop w atom accum rv (pre @ rest, e)
                        = genericExtractArticle_loop w atom accum' rv' (rest, e))"
  using assms
proof (induction pre arbitrary: accum rv)
  case Nil
  then show ?case by auto
next
  case (Cons t pre)
  show ?case
  proof (cases "genericExtractArticle_switch w atom accum rv t")
    case (Continue accum' rv')
    with Cons.IH [of accum' rv'] Cons.prems show ?thesis by simp
  next
    case (Return r)
    show ?thesis
    proof (cases r)
      case (Inl err)
      with Return show ?thesis by simp
    next
      case (Inr x)
      with Return switch_Return_Inr [of w atom accum rv t x] Cons.prems
      show ?thesis by auto
    qed
  qed
qed

lemma switch_close:
  "close = ''item'' \<or> close = ''entry'' \<Longrightarrow>
   genericExtractArticle_switch w atom accum rv (EndElement close) = Return (Inr rv)"
  by (auto simp: genericExtractArticle_switch_def)

lemma hrefLoop_found:
  "snd (hrefLoop attrs rv found) = (found \<or> ''href'' \<in> fst ` set attrs)"
  by (induction attrs rv found rule: hrefLoop.induct) auto

lemma switch_plain:
  assumes "plainToken atom t"
  shows "\<exists>accum' rv'. genericExtractArticle_switch w atom accum rv t = Continue accum' rv'
                      \<and> PubDate rv' = PubDate rv"
proof (cases t)
  case (StartElement name attrs)
  show ?thesis
  proof (cases "atom \<and> name = ''link''")
    case True
    with assms StartElement have "''href'' \<in> fst ` set attrs"
      by (simp add: plainToken_def)
    then have "snd (hrefLoop attrs rv False) = True"
      by (simp add: hrefLoop_found)
    then obtain rv' where h: "hrefLoop attrs rv False = (rv', True)"
      by (cases "hrefLoop attrs rv False") auto
    with hrefLoop_PubDate [of attrs rv False] have "PubDate rv' = PubDate rv" by simp
    with True StartElement h show ?thesis
      by (simp add: genericExtractArticle_switch_def)
  next
    case False
    with StartElement show ?thesis
      by (auto simp: genericExtractArticle_switch_def)
  qed
next
  case (EndElement name)
  with assms have n: "name \<noteq> ''item''" "name \<noteq> ''entry''" "name \<noteq> ''pubDate''"
    "name \<noteq> ''updated''" "name \<noteq> ''date''"
    by (simp_all add: plainToken_def)
  show ?thesis
    unfolding EndElement genericExtractArticle_switch_def using n by simp
next
  case (CharData s)
  then show ?thesis by (simp add: switch_CharData)
next
  case OtherToken
  then show ?thesis by (simp add: genericExtractArticle_switch_def)
qed

lemma loop_plain:
  assumes "list_all (plainToken atom) ts"
  shows "\<exists>accum' rv'. genericExtractArticle_loop w atom accum rv (ts @ tail, e)
                        = genericExtractArticle_loop w atom accum' rv' (tail, e)
                      \<and> PubDate rv' = PubDate rv"
  using assms
proof (induction ts arbitrary: accum rv)
  case Nil
  then show ?case by auto
next
  case (Cons t ts)
  then have "plainToken atom t" and rest: "list_all (plainToken atom) ts" by simp_all
  from switch_plain [OF this(1), of w accum rv]
  obtain accum1 rv1 where s: "genericExtractArticle_switch w atom accum rv t = Continue accum1 rv1"
    and p: "PubDate rv1 = PubDate rv" by blast
  from Cons.IH [OF rest, of accum1 rv1]
  obtain accum' rv' where
    "genericExtractArticle_loop w atom accum1 rv1 (ts @ tail, e)
     = genericExtractArticle_loop w atom accum' rv' (tail, e)"
    and "PubDate rv' = PubDate rv1" by blast
  with s p show ?case by auto
qed

lemma loop_to_close:
  assumes close: "close = ''item'' \<or> close = ''entry''"
    and "EndElement ''pubDate'' \<notin> set post" and "EndElement ''updated'' \<notin> set post"
    and "EndElement ''date'' \<notin> set post"
    and "EndElement ''item'' \<notin> set post" and "EndElement ''entry'' \<notin> set post"
    and "genericExtractArticle_loop w atom accum rv (post @ EndElement close # rest, e)
         = (Inr article, ring')"
  shows "PubDate article = PubDate rv \<and> ring' = (rest, e)"
  using assms(2-)
proof (induction post arbitrary: accum rv)
  case Nil
  then show ?case by (simp add: switch_close [OF close])
next
  case (Cons t post)
  show ?case
  proof (cases "genericExtractArticle_switch w atom accum rv t")
    case (Continue accum' rv')
    with Cons.prems
    have "genericExtractArticle_loop w atom accum' rv' (post @ EndElement close # rest, e)
          = (Inr article, ring')"
      by simp
    with Cons.IH [of accum' rv'] Cons.prems
    have "PubDate article = PubDate rv' \<and> ring' = (rest, e)" by simp
    moreover have "PubDate rv' = PubDate rv"
      using Continue Cons.prems by (intro switch_Continue_PubDate [OF Continue]) auto
    ultimately show ?thesis by simp
  next
    case (Return r)
    with Cons.prems have "r = Inr article" by simp
    with Return switch_Return_Inr [of w atom accum rv t article] Cons.prems
    show ?thesis by auto
  qed
qed


lemma feedParser_item:
  assumes "opening = ''item'' \<or> opening = ''entry''"
  shows "feedParser w (StartElement opening attrs0 # item, e) root l
         = (case genericExtractArticle w (item, e) l (opening = ''entry'') of
              (Inl err, ring') \<Rightarrow> (Some err, l)
            | (Inr article, ring') \<Rightarrow>
                feedParser w ring' root (l\<lparr>Articles := Articles l @ [article]\<rparr>))"
  using assms by (auto simp: Let_def split: prod.splits sum.splits)

subsection \<open>Facts about discovery\<close>

lemma HasPrefix_iff: "HasPrefix s pref \<longleftrightarrow> (\<exists>rest. s = pref @ rest)"
proof
  assume "HasPrefix s pref"
  then have "s = pref @ drop (length pref) s"
    by (metis HasPrefix_def append_take_drop_id)
  then show "\<exists>rest. s = pref @ rest" ..
next
  assume "\<exists>rest. s = pref @ rest"
  then show "HasPrefix s pref" by (auto simp: HasPrefix_def)
qed

lemma HasSuffix_iff: "HasSuffix s suff \<longleftrightarrow> (\<exists>front. s = front @ suff)"
proof
  assume "HasSuffix s suff"
  then have "s = take (length s - length suff) s @ suff"
    by (metis HasSuffix_def append_take_drop_id)
  then show "\<exists>front. s = front @ suff" ..
next
  assume "\<exists>front. s = front @ suff"
  then show "HasSuffix s suff" by (auto simp: HasSuffix_def)
qed

lemma Contains_iff: "Contains s substr \<longleftrightarrow> (\<exists>front rest. s = front @ substr @ rest)"
proof (induction s)
  case Nil
  then show ?case by auto
next
  case (Cons c s)
  show ?case
  proof
    assume "Contains (c # s) substr"
    then consider "HasPrefix (c # s) substr" | "Contains s substr" by auto
    then show "\<exists>front rest. c # s = front @ substr @ rest"
    proof cases
      case 1
      then obtain rest where "c # s = substr @ rest" by (auto simp: HasPrefix_iff)
      then have "c # s = [] @ substr @ rest" by simp
      then show ?thesis by blast
    next
      case 2
      with Cons.IH obtain front rest where "s = front @ substr @ rest" by blast
      then have "c # s = (c # front) @ substr @ rest" by simp
      then show ?thesis by blast
    qed
  next
    assume "\<exists>front rest. c # s = front @ substr @ rest"
    then obtain front rest where d: "c # s = front @ substr @ rest" by blast
    show "Contains (c # s) substr"
    proof (cases front)
      case Nil
      with d have "HasPrefix (c # s) substr" by (auto simp: HasPrefix_iff)
      then show ?thesis by simp
    next
      case (Cons a front')
      with d have "s = front' @ substr @ rest" by simp
      with Cons.IH have "Contains s substr" by blast
      then show ?thesis by simp
    qed
  qed
qed

lemma namedLikeFeedLink_iff: "namedLikeFeedLink link \<longleftrightarrow> spec_candidate link"
proof -
  have t: "list_ex (\<lambda>cand. Contains (ToLower (LinkTitle link)) cand) feedHints \<longleftrightarrow>
           (\<exists>hint \<in> {''rss'', ''atom'', ''feed''}.
              \<exists>front rest. ToLower (LinkTitle link) = front @ hint @ rest)"
    unfolding list_ex_iff feedHints_def Contains_iff by simp
  have "\<And>u cand. (u = cand \<or> HasSuffix u cand) \<longleftrightarrow> (\<exists>front. u = front @ cand)"
    unfolding HasSuffix_iff by auto
  then have u: "list_ex (\<lambda>cand. ToLower (LinkUrl link) = cand \<or> HasSuffix (ToLower (LinkUrl link)) cand)
              urlSuffixes \<longleftrightarrow>
           (\<exists>suffix \<in> {''atom.xml'', ''rss.xml'', ''feed.xml'', ''feed=rss2'', ''feed=atom'',
                    ''feed=rss'', ''feed''}.
              \<exists>front. ToLower (LinkUrl link) = front @ suffix)"
    unfolding list_ex_iff urlSuffixes_def by simp
  show ?thesis
    unfolding namedLikeFeedLink_def spec_candidate_def Let_def t u by auto
qed

lemma validFeedContentType_iff:
  "validFeedContentType ct \<longleftrightarrow>
   (\<exists>c \<in> set ct. \<exists>pref \<in> {''text/xml'', ''text/plain'', ''application/xml'',
                             ''application/rss+xml'', ''application/atom+xml''}.
      \<exists>rest. c = pref @ rest)"
  unfolding validFeedContentType_def list_ex_iff contentTypes_def HasPrefix_iff by simp

lemma recognizedFeedFormat_iff:
  "recognizedFeedFormat w body \<longleftrightarrow>
   (\<exists>tag attrs ring. firstStartElement (xml_NewDecoder w body) = Inr ((tag, attrs), ring)
      \<and> tag \<in> {''rss'', ''feed'', ''RDF''})"
proof (cases "firstStartElement (xml_NewDecoder w body)")
  case (Inl err)
  then show ?thesis by (simp add: recognizedFeedFormat_def)
next
  case (Inr r)
  obtain tag attrs ring where r: "r = ((tag, attrs), ring)"
    by (metis prod.exhaust)
  have "(parseFunctionForFeed (tag, attrs) :: 'a ArticleParser option) \<noteq> None
        \<longleftrightarrow> tag \<in> {''rss'', ''feed'', ''RDF''}"
    by (simp add: parseFunctionForFeed_def)
  with Inr r show ?thesis by (simp add: recognizedFeedFormat_def)
qed


lemma feed_response_iff:
  "StatusCode resp = 200 \<and> validFeedContentType (ContentType resp)
     \<and> recognizedFeedFormat w (Body resp)
   \<longleftrightarrow> spec_feed_response w resp"
  unfolding spec_feed_response_def validFeedContentType_iff recognizedFeedFormat_iff ..

lemma spec_accepted_code:
  "spec_accepted w reqs baseUrl link \<longleftrightarrow>
   namedLikeFeedLink link \<and>
   (case forceAbsolute w baseUrl (LinkUrl link) of
      Inl err \<Rightarrow> False
    | Inr absU \<Rightarrow>
        (case client_Get w reqs absU of
           Inl err \<Rightarrow> False
         | Inr resp \<Rightarrow>
             StatusCode resp = 200 \<and> validFeedContentType (ContentType resp)
             \<and> recognizedFeedFormat w (Body resp)))"
  unfolding spec_accepted_def namedLikeFeedLink_iff feed_response_iff
  by (auto split: sum.splits)

lemma spec_probes_code:
  "spec_probes w baseUrl links =
     concat (map (\<lambda>link.
       if namedLikeFeedLink link
       then (case forceAbsolute w baseUrl (LinkUrl link) of Inl err \<Rightarrow> [] | Inr absU \<Rightarrow> [absU])
       else []) links)"
  unfolding spec_probes_def namedLikeFeedLink_iff ..

lemma spec_probes_append:
  "spec_probes w baseUrl (xs @ ys) = spec_probes w baseUrl xs @ spec_probes w baseUrl ys"
  by (simp add: spec_probes_def)

lemma checkForFeedUrl_spec:
  "checkForFeedUrl w reqs baseUrl link =
     (if spec_accepted w reqs baseUrl link
      then (reqs @ spec_probes w baseUrl [link], LinkUrl link, True)
      else (reqs @ spec_probes w baseUrl [link], [], False))"
proof (cases "namedLikeFeedLink link")
  case False
  then show ?thesis
    by (simp add: checkForFeedUrl_def spec_accepted_code spec_probes_code)
next
  case named: True
  show ?thesis
  proof (cases "forceAbsolute w baseUrl (LinkUrl link)")
    case (Inl err)
    with named show ?thesis
      by (simp add: checkForFeedUrl_def makeFeedRequest_def spec_accepted_code spec_probes_code)
  next
    case (Inr absU)
    show ?thesis
    proof (cases "client_Get w reqs absU")
      case (Inl err)
      with named Inr show ?thesis
        by (simp add: checkForFeedUrl_def makeFeedRequest_def spec_accepted_code spec_probes_code)
    next
      case get: (Inr resp)
      with named Inr show ?thesis
        by (simp add: checkForFeedUrl_def makeFeedRequest_def spec_accepted_code spec_probes_code)
    qed
  qed
qed

lemma findFeedUrl_loop_rejected:
  assumes "\<forall>i < length pre.
             \<not> spec_accepted w (reqs @ spec_probes w (BaseUrl ld) (take i pre)) (BaseUrl ld) (pre ! i)"
  shows "findFeedUrl_loop w reqs ld (pre @ rest)
         = findFeedUrl_loop w (reqs @ spec_probes w (BaseUrl ld) pre) ld rest"
  using assms
proof (induction pre arbitrary: reqs)
  case Nil
  then show ?case by (simp add: spec_probes_def)
next
  case (Cons l pre)
  let ?reqs' = "reqs @ spec_probes w (BaseUrl ld) [l]"
  from Cons.prems have "\<not> spec_accepted w (reqs @ spec_probes w (BaseUrl ld) (take 0 (l # pre)))
                           (BaseUrl ld) ((l # pre) ! 0)"
    by blast
  then have head: "\<not> spec_accepted w reqs (BaseUrl ld) l"
    by (simp add: spec_probes_def)
  have tail: "\<forall>i < length pre.
                \<not> spec_accepted w (?reqs' @ spec_probes w (BaseUrl ld) (take i pre)) (BaseUrl ld) (pre ! i)"
  proof (intro allI impI)
    fix i assume "i < length pre"
    then have "Suc i < length (l # pre)" by simp
    with Cons.prems
    have "\<not> spec_accepted w (reqs @ spec_probes w (BaseUrl ld) (take (Suc i) (l # pre)))
              (BaseUrl ld) ((l # pre) ! Suc i)"
      by blast
    moreover have "spec_probes w (BaseUrl ld) (take (Suc i) (l # pre))
                   = spec_probes w (BaseUrl ld) [l] @ spec_probes w (BaseUrl ld) (take i pre)"
      using spec_probes_append [of w "BaseUrl ld" "[l]" "take i pre"] by simp
    ultimately show "\<not> spec_accepted w (?reqs' @ spec_probes w (BaseUrl ld) (take i pre))
                        (BaseUrl ld) (pre ! i)"
      by simp
  qed
  have "findFeedUrl_loop w reqs ld ((l # pre) @ rest) = findFeedUrl_loop w ?reqs' ld (pre @ rest)"
    using head by (simp add: checkForFeedUrl_spec)
  also have "\<dots> = findFeedUrl_loop w (?reqs' @ spec_probes w (BaseUrl ld) pre) ld rest"
    using tail by (rule Cons.IH)
  also have "?reqs' @ spec_probes w (BaseUrl ld) pre = reqs @ spec_probes w (BaseUrl ld) (l # pre)"
    using spec_probes_append [of w "BaseUrl ld" "[l]" pre] by simp
  finally show ?case .
qed

text \<open>
  Where the feed URL of a record in state \<open>LinkHasFeed\<close> can come from: a pass keeps
  it non-empty unless discovery itself returns an empty URL.
\<close>

lemma findFeedUrl_State:
  "findFeedUrl w reqs (ld\<lparr>State := s\<rparr>) = findFeedUrl w reqs ld"
proof -
  have "findFeedUrl_loop w r (ld\<lparr>State := s\<rparr>) links = findFeedUrl_loop w r ld links" for r links
    by (induction links arbitrary: r) (auto split: prod.splits)
  then show ?thesis by (simp add: findFeedUrl_def split: sum.splits prod.splits option.splits)
qed

lemma checkLink_FeedUrl_nonempty:
  assumes inv: "State ld = LinkHasFeed \<longrightarrow> FeedUrl ld \<noteq> []"
    and found: "snd (findFeedUrl w reqs ld) \<noteq> Inr []"
    and has: "State (snd (checkLink w moment reqs ld)) = LinkHasFeed"
  shows "FeedUrl (snd (checkLink w moment reqs ld)) \<noteq> []"
proof -
  have new: "FeedUrl (snd (checkLink w moment reqs l)) \<noteq> []"
    if "State l = LinkIsNew" "snd (findFeedUrl w reqs l) \<noteq> Inr []"
      "State (snd (checkLink w moment reqs l)) = LinkHasFeed" for l
  proof (cases "findFeedUrl w reqs l")
    case (Pair reqs' r)
    show ?thesis
    proof (cases r)
      case (Inl err)
      with Pair that(1,3) show ?thesis
        by (simp add: checkLink_IsNew_eq ErrorOccurred_def split: if_splits)
    next
      case (Inr feedUrl)
      with Pair that(2) have "feedUrl \<noteq> []" by simp
      with Pair Inr that(1) show ?thesis
        by (simp add: checkLink_IsNew_eq checkForArticles_FeedUrl)
    qed
  qed
  show ?thesis
  proof (cases "State ld")
    case LinkIsNew
    with found has show ?thesis by (intro new)
  next
    case LinkNoFeedFound
    with has show ?thesis by (simp add: checkLink_rest)
  next
    case LinkTransientError
    show ?thesis
    proof (cases "FeedUrl ld = []")
      case True
      let ?l = "ld\<lparr>State := LinkIsNew\<rparr>"
      have eq: "checkLink w moment reqs ld = checkLink w moment reqs ?l"
        using LinkTransientError True by (simp add: checkLink_TransientError_eq)
      have "FeedUrl (snd (checkLink w moment reqs ?l)) \<noteq> []"
        using found has by (intro new) (simp_all add: findFeedUrl_State eq)
      with eq show ?thesis by simp
    next
      case False
      with LinkTransientError show ?thesis
        by (simp add: checkLink_TransientError_eq checkLink_HasFeed checkForArticles_FeedUrl)
    qed
  next
    case LinkHasFeed
    with inv show ?thesis by (simp add: checkLink_HasFeed checkForArticles_FeedUrl)
  next
    case LinkIgnore
    with has show ?thesis by (simp add: checkLink_rest)
  qed
qed

subsection \<open>Facts about sorting\<close>

lemma set_insertBy: "set (insertBy lt x ys) = insert x (set ys)"
  by (induction ys) auto

lemma mset_insertBy: "mset (insertBy lt x ys) = add_mset x (mset ys)"
  by (induction ys) auto

lemma mset_sortBy: "mset (sortBy lt xs) = mset xs"
  by (induction xs) (auto simp: sortBy_def mset_insertBy)

lemma sorted_insertBy:
  "sorted (map PubDate ys) \<Longrightarrow> sorted (map PubDate (insertBy ArticleArray_Less x ys))"
  by (induction ys) (auto simp: set_insertBy ArticleArray_Less_def Before_def)

lemma sorted_sortBy: "sorted (map PubDate (sortBy ArticleArray_Less xs))"
  by (induction xs) (auto simp: sortBy_def sorted_insertBy)

lemma sorted_wrt_PubDate:
  "sorted_wrt (\<lambda>a b. \<not> ArticleArray_Less b a) xs = sorted (map PubDate xs)"
  by (simp add: sorted_map ArticleArray_Less_def Before_def not_less)

lemma sortBy_contract: "sort_Sort w = sortBy \<Longrightarrow> sort_Sort_contract w"
  by (simp add: sort_Sort_contract_def mset_sortBy sorted_wrt_PubDate sorted_sortBy)

lemma absoluteUrls_PubDate:
  "absoluteUrls w base xs = Inr arts \<Longrightarrow> map PubDate arts = map PubDate xs"
  by (induction xs arbitrary: arts) (auto split: sum.splits)

lemma sorted_short: "length xs \<le> 1 \<Longrightarrow> sorted (map f xs)"
  by (cases xs) auto

lemma checkForArticles_sorted:
  assumes "sort_Sort_contract w"
  shows "sorted (map PubDate (Articles (snd (checkForArticles w moment reqs ld))))"
proof -
  let ?r = "snd (checkForArticles w moment reqs ld)"
  from checkForArticles_result [of w moment reqs ld]
  consider (reset) "?r = ld\<lparr>Articles := []\<rparr>"
    | (failed) err where
        "?r = ld\<lparr>State := LinkTransientError, LastError := Some err, Articles := []\<rparr>"
    | (refreshed) xs arts where
        "?r = ld\<lparr>LastChecked := moment, Articles := arts\<rparr>"
        "absoluteUrls w (BaseUrl ld) xs = Inr arts"
        "length xs \<le> 1 \<or> (\<exists>parsed. xs = sort_Sort w ArticleArray_Less parsed)"
    by blast
  then show ?thesis
  proof cases
    case reset
    then show ?thesis by simp
  next
    case failed
    then show ?thesis by simp
  next
    case refreshed
    have "sorted (map PubDate xs)"
      using refreshed(3) assms
      by (auto simp: sorted_short sort_Sort_contract_def sorted_wrt_PubDate)
    with absoluteUrls_PubDate [OF refreshed(2)] refreshed(1) show ?thesis by simp
  qed
qed

lemma checkLink_sorted:
  assumes c: "sort_Sort_contract w" and s: "sorted (map PubDate (Articles ld))"
  shows "sorted (map PubDate (Articles (snd (checkLink w moment reqs ld))))"
proof -
  have settled: "sorted (map PubDate (Articles (snd (checkLink w moment reqs l))))"
    if "State l \<noteq> LinkTransientError" "sorted (map PubDate (Articles l))" for l
  proof (cases "State l")
    case LinkIsNew
    show ?thesis
    proof (cases "findFeedUrl w reqs l")
      case (Pair reqs' r)
      with LinkIsNew that(2) c show ?thesis
        by (cases r) (simp_all add: checkLink_IsNew_eq ErrorOccurred_def checkForArticles_sorted)
    qed
  next
    case LinkNoFeedFound
    with that show ?thesis by (simp add: checkLink_rest)
  next
    case LinkTransientError
    with that show ?thesis by simp
  next
    case LinkHasFeed
    with c show ?thesis by (simp add: checkLink_HasFeed checkForArticles_sorted)
  next
    case LinkIgnore
    with that show ?thesis by (simp add: checkLink_rest)
  qed
  show ?thesis
  proof (cases "State ld = LinkTransientError")
    case False
    then show ?thesis using s by (rule settled)
  next
    case True
    let ?l = "ld\<lparr>State := (if FeedUrl ld = [] then LinkIsNew else LinkHasFeed)\<rparr>"
    have "sorted (map PubDate (Articles (snd (checkLink w moment reqs ?l))))"
      using s by (intro settled) auto
    with True show ?thesis by (simp add: checkLink_TransientError_eq)
  qed
qed

subsection \<open>Facts about the examples\<close>

lemmas discovery_defs =
  spec_accepted_code spec_probes_code namedLikeFeedLink_def feedHints_def urlSuffixes_def
  ToLower_def lowerChar_def HasPrefix_def HasSuffix_def forceAbsolute_def resolve0_def
  validFeedContentType_def contentTypes_def recognizedFeedFormat_def parseFunctionForFeed_def
  world_two_def world_rss_def world0_def rssTokens_def link_new_def

lemma Extract_world_two:
  "Extract (html_NewTokenizer world_two body)
   = ([\<lparr>LinkTitle = ''Atom'', LinkUrl = ''/atom.xml''\<rparr>,
       \<lparr>LinkTitle = ''RSS Feed'', LinkUrl = ''/feed.xml''\<rparr>,
       \<lparr>LinkTitle = ''Archive'', LinkUrl = ''/old/feed''\<rparr>,
       \<lparr>LinkTitle = ''About'', LinkUrl = ''/about''\<rparr>], None)"
  by (simp add: Extract_def world_two_def anchor_def checkTag_def checkForAnchor_def findAttr_def)

text \<open>The definitions that evaluating a refresh in these worlds unfolds.\<close>

lemmas eval_defs =
  checkForArticles_def makeFeedRequest_def forceAbsolute_def parseFunctionForFeed_def
  genericExtractArticle_def genericExtractArticle_switch_def parseTime_def formats_def
  parse0_def sortBy_def ArticleArray_Less_def Before_def emptyArticle_def zeroTime_def
  ErrorOccurred_def world0_def resolve0_def HasPrefix_def Let_def
  time_Sub_less_minCheckDuration

section \<open>The claims\<close>

subsection \<open>Unread articles and marking as read\<close>

text \<open>
  C9, as amended.  \<open>UnreadArticles\<close> returns exactly the articles whose publish time
  is strictly after \<open>LastRead\<close>, in their order.  \<open>MarkAllAsRead\<close> changes nothing
  but \<open>LastRead\<close>, which becomes the latest of its current value, the zero time (where
  the search starts) and the publish times of the articles, and so never moves back.  It
  becomes the latest publish time among the articles when that time is after both the
  current \<open>LastRead\<close> and the zero time, as it is whenever something is unread and
  \<open>LastRead\<close> is not before the zero time.  Otherwise a \<open>LastRead\<close> that is not
  before the zero time stays as it is, and one before the zero time becomes the zero time.
\<close>

theorem UnreadArticles_MarkAllAsRead:
  "UnreadArticles ld = filter (\<lambda>art. LastRead ld < PubDate art) (Articles ld)
   \<and> MarkAllAsRead ld
       = ld\<lparr>LastRead := max (LastRead ld) (Max (insert zeroTime (PubDate ` set (Articles ld))))\<rparr>
   \<and> LastRead ld \<le> LastRead (MarkAllAsRead ld)
   \<and> (Articles ld \<noteq> [] \<and> LastRead ld < Max (PubDate ` set (Articles ld))
        \<and> zeroTime < Max (PubDate ` set (Articles ld)) \<longrightarrow>
        LastRead (MarkAllAsRead ld) = Max (PubDate ` set (Articles ld)))
   \<and> (\<not> (Articles ld \<noteq> [] \<and> LastRead ld < Max (PubDate ` set (Articles ld))
           \<and> zeroTime < Max (PubDate ` set (Articles ld))) \<longrightarrow>
        (if zeroTime \<le> LastRead ld then MarkAllAsRead ld = ld
         else MarkAllAsRead ld = ld\<lparr>LastRead := zeroTime\<rparr>))
   \<and> (zeroTime \<le> LastRead ld \<and> UnreadArticles ld \<noteq> [] \<longrightarrow>
        LastRead (MarkAllAsRead ld) = Max (PubDate ` set (Articles ld)))"
proof -
  let ?P = "PubDate ` set (Articles ld)"
  let ?adv = "Articles ld \<noteq> [] \<and> LastRead ld < Max ?P \<and> zeroTime < Max ?P"
  have 1: "UnreadArticles ld = filter (\<lambda>art. LastRead ld < PubDate art) (Articles ld)"
    by (simp add: UnreadArticles_def Before_def)
  have latest: "latestPubDate (Articles ld) = Max (insert zeroTime ?P)"
    by (simp add: latestPubDate_def foldl_latest)
  have 2: "MarkAllAsRead ld = ld\<lparr>LastRead := max (LastRead ld) (Max (insert zeroTime ?P))\<rparr>"
    by (simp add: MarkAllAsRead_def latest After_def max_def Let_def)
  have ins: "Max (insert zeroTime ?P) = (if Articles ld = [] then zeroTime else max zeroTime (Max ?P))"
    by simp
  have 3: "LastRead ld \<le> LastRead (MarkAllAsRead ld)"
    by (simp add: 2)
  have 4: "LastRead (MarkAllAsRead ld) = Max ?P" if ?adv
    using that by (simp add: 2 ins max_def)
  have same: "ld\<lparr>LastRead := LastRead ld\<rparr> = ld" by simp
  have keep: "max (LastRead ld) (Max (insert zeroTime ?P)) = LastRead ld"
    if "\<not> ?adv" "zeroTime \<le> LastRead ld"
    using that unfolding ins by (auto simp: max_def)
  have zero: "max (LastRead ld) (Max (insert zeroTime ?P)) = zeroTime"
    if "\<not> ?adv" "\<not> zeroTime \<le> LastRead ld"
    using that unfolding ins by (auto simp: max_def)
  have 5: "if zeroTime \<le> LastRead ld then MarkAllAsRead ld = ld
           else MarkAllAsRead ld = ld\<lparr>LastRead := zeroTime\<rparr>" if n: "\<not> ?adv"
  proof (cases "zeroTime \<le> LastRead ld")
    case True
    with keep [OF n True] same show ?thesis by (simp add: 2)
  next
    case False
    with zero [OF n False] show ?thesis by (simp add: 2)
  qed
  have 6: "LastRead (MarkAllAsRead ld) = Max ?P"
    if z: "zeroTime \<le> LastRead ld" and u: "UnreadArticles ld \<noteq> []"
  proof -
    from u obtain a where a: "a \<in> set (Articles ld)" "LastRead ld < PubDate a"
      unfolding 1 by (metis (mono_tags, lifting) filter_False)
    have fin: "finite ?P" and ne: "Articles ld \<noteq> []" using a by auto
    have "PubDate a \<le> Max ?P" using a fin by simp
    with a z have "LastRead ld < Max ?P" "zeroTime < Max ?P" by linarith+
    with ne show ?thesis by (intro 4) simp
  qed
  from 1 2 3 4 5 6 show ?thesis by blast
qed

text \<open>
  The scenario of the specification: \<open>LastRead = 100\<close> and publish times
  \<open>99, 100, 101, 102\<close>.  Then a record read at \<open>-10\<close> with articles at \<open>-5\<close>
  and \<open>-7\<close>, and the record read up to 500.
\<close>

theorem UnreadArticles_MarkAllAsRead_witness:
  "zeroTime \<le> LastRead link0
   \<and> UnreadArticles link0 = [art ''/c'' 101, art ''/d'' 102]
   \<and> Max (PubDate ` set (Articles link0)) = 102
   \<and> LastRead (MarkAllAsRead link0) = 102
   \<and> UnreadArticles link_early = [art ''/a'' (- 5), art ''/b'' (- 7)]
   \<and> MarkAllAsRead link_early = link_early\<lparr>LastRead := zeroTime\<rparr>
   \<and> MarkAllAsRead link_read = link_read"
proof -
  have u: "UnreadArticles link0 = [art ''/c'' 101, art ''/d'' 102]"
    by (simp add: UnreadArticles_def link0_def art_def Before_def)
  have z: "zeroTime \<le> LastRead link0"
    by (simp add: zeroTime_def link0_def)
  have m: "Max (PubDate ` set (Articles link0)) = 102"
    by (simp add: link0_def art_def)
  have adv: "Articles link0 \<noteq> [] \<and> LastRead link0 < Max (PubDate ` set (Articles link0))
             \<and> zeroTime < Max (PubDate ` set (Articles link0))"
    unfolding m by (simp add: link0_def zeroTime_def)
  note t0 = UnreadArticles_MarkAllAsRead [of link0]
  from t0 adv have "LastRead (MarkAllAsRead link0) = Max (PubDate ` set (Articles link0))"
    by blast
  with m have 1: "LastRead (MarkAllAsRead link0) = 102" by simp
  have ue: "UnreadArticles link_early = [art ''/a'' (- 5), art ''/b'' (- 7)]"
    by (simp add: UnreadArticles_def link_early_def link0_def art_def Before_def)
  have me: "Max (PubDate ` set (Articles link_early)) = - 5"
    by (simp add: link_early_def link0_def art_def)
  have ne: "\<not> (Articles link_early \<noteq> [] \<and> LastRead link_early < Max (PubDate ` set (Articles link_early))
             \<and> zeroTime < Max (PubDate ` set (Articles link_early)))"
    unfolding me by (simp add: zeroTime_def)
  have ze: "\<not> zeroTime \<le> LastRead link_early"
    by (simp add: zeroTime_def link_early_def)
  note t1 = UnreadArticles_MarkAllAsRead [of link_early]
  from t1 ne have "if zeroTime \<le> LastRead link_early then MarkAllAsRead link_early = link_early
         else MarkAllAsRead link_early = link_early\<lparr>LastRead := zeroTime\<rparr>"
    by blast
  with ze have 2: "MarkAllAsRead link_early = link_early\<lparr>LastRead := zeroTime\<rparr>" by simp
  have mr: "Max (PubDate ` set (Articles link_read)) = 102"
    by (simp add: link_read_def link0_def art_def)
  have nr: "\<not> (Articles link_read \<noteq> [] \<and> LastRead link_read < Max (PubDate ` set (Articles link_read))
             \<and> zeroTime < Max (PubDate ` set (Articles link_read)))"
    unfolding mr by (simp add: link_read_def)
  have zr: "zeroTime \<le> LastRead link_read"
    by (simp add: zeroTime_def link_read_def)
  note t2 = UnreadArticles_MarkAllAsRead [of link_read]
  from t2 nr have "if zeroTime \<le> LastRead link_read then MarkAllAsRead link_read = link_read
         else MarkAllAsRead link_read = link_read\<lparr>LastRead := zeroTime\<rparr>"
    by blast
  with zr have 3: "MarkAllAsRead link_read = link_read" by simp
  from z u m 1 ue 2 3 show ?thesis by blast
qed

text \<open>
  A record read up to time 500 whose articles are all older: \<open>MarkAllAsRead\<close> leaves
  \<open>LastRead\<close> at 500, which is not the latest publish time, 102.
\<close>

theorem MarkAllAsRead_counterexample:
  "Max (PubDate ` set (Articles link_read)) = 102
   \<and> LastRead (MarkAllAsRead link_read) = 500
   \<and> LastRead (MarkAllAsRead link_read) \<noteq> Max (PubDate ` set (Articles link_read))"
  by (simp add: link_read_def link0_def art_def MarkAllAsRead_def latestPubDate_def
      After_def zeroTime_def)

subsection \<open>Registering interest\<close>

text \<open>
  C10.  For a URL already in the store, \<open>InterestedIn\<close> leaves the map of records as
  it is, so the record keeps its title whatever title is passed, and appends the URL to
  \<open>noted\<close>.  After two calls with that URL, \<open>CheckForUpdates\<close> sends the same
  record twice.
\<close>

theorem InterestedIn_known_url:
  assumes "Links ls url = Some ld"
  shows "Links (InterestedIn ls url title) = Links ls
       \<and> Links (InterestedIn ls url title) url = Some ld
       \<and> noted (InterestedIn ls url title) = noted ls @ [url]
       \<and> CheckForUpdates_linkIn (InterestedIn (InterestedIn ls url title) url title')
           = CheckForUpdates_linkIn ls @ [(url, Some ld), (url, Some ld)]"
  using assms by (simp add: InterestedIn_def CheckForUpdates_linkIn_def)

theorem InterestedIn_known_url_witness:
  "Links store1 ''http://x/'' = Some link0
   \<and> Title link0 = ''X''
   \<and> Links (InterestedIn store1 ''http://x/'' ''Other title'') ''http://x/'' = Some link0
   \<and> noted (InterestedIn store1 ''http://x/'' ''Other title'') = [''http://x/'']
   \<and> CheckForUpdates_linkIn
        (InterestedIn (InterestedIn store1 ''http://x/'' ''Other title'') ''http://x/'' ''Third'')
       = [(''http://x/'', Some link0), (''http://x/'', Some link0)]"
proof -
  have h: "Links store1 ''http://x/'' = Some link0"
    by (simp add: store1_def)
  show ?thesis
    using InterestedIn_known_url [OF h, of "''Other title''" "''Third''"] h
    by (simp add: store1_def link0_def CheckForUpdates_linkIn_def)
qed

subsection \<open>Refresh within the minimum check interval\<close>

text \<open>
  C3, as amended.  When less than 300 seconds have passed since \<open>LastChecked\<close>,
  \<open>checkForArticles\<close> makes no request and raises no error: state, last error,
  \<open>LastChecked\<close> and every other field stay as they are, except that the articles
  list is emptied (the list is reset before the interval is tested).  A record whose list
  is empty is returned as it is, and a second refresh within the interval changes nothing
  that the first has left.  \<open>checkLink\<close> on a record in state \<open>LinkHasFeed\<close>
  does the same.
\<close>

theorem checkForArticles_within_interval:
  assumes "moment - LastChecked ld < 300000000000"
  shows "checkForArticles w moment reqs ld = (reqs, ld\<lparr>Articles := []\<rparr>)
       \<and> (Articles ld = [] \<longrightarrow> checkForArticles w moment reqs ld = (reqs, ld))
       \<and> (moment' - LastChecked ld < 300000000000 \<longrightarrow>
            checkForArticles w moment' reqs (snd (checkForArticles w moment reqs ld))
            = checkForArticles w moment reqs ld)
       \<and> (State ld = LinkHasFeed \<longrightarrow> checkLink w moment reqs ld = (reqs, ld\<lparr>Articles := []\<rparr>))"
proof -
  have 1: "checkForArticles w moment reqs ld = (reqs, ld\<lparr>Articles := []\<rparr>)"
    using assms by (rule checkForArticles_skip)
  have 2: "checkForArticles w moment reqs ld = (reqs, ld)" if "Articles ld = []"
    using 1 that by (metis LinkDetails.surjective LinkDetails.update_convs(8))
  have 3: "checkForArticles w moment' reqs (snd (checkForArticles w moment reqs ld))
           = checkForArticles w moment reqs ld"
    if "moment' - LastChecked ld < 300000000000"
    using that by (simp add: 1 checkForArticles_skip)
  have 4: "checkLink w moment reqs ld = (reqs, ld\<lparr>Articles := []\<rparr>)" if "State ld = LinkHasFeed"
    using that 1 by (simp add: checkLink_HasFeed)
  from 1 2 3 4 show ?thesis by blast
qed

theorem checkForArticles_within_interval_witness:
  "5001000000000 - LastChecked link_empty < 300000000000
   \<and> 5002000000000 - LastChecked link_empty < 300000000000
   \<and> State link_empty = LinkHasFeed
   \<and> checkForArticles world0 5001000000000 [] link_empty = ([], link_empty)
   \<and> checkForArticles world0 5002000000000 []
        (snd (checkForArticles world0 5001000000000 [] link_empty)) = ([], link_empty)
   \<and> checkLink world0 5001000000000 [] link_empty = ([], link_empty)"
proof -
  have h: "5001000000000 - LastChecked link_empty < 300000000000"
    by (simp add: link_empty_def link0_def)
  have h': "5002000000000 - LastChecked link_empty < 300000000000"
    by (simp add: link_empty_def link0_def)
  have s: "State link_empty = LinkHasFeed" and a: "Articles link_empty = []"
    by (simp_all add: link_empty_def link0_def)
  note t = checkForArticles_within_interval [OF h, of world0 "[]" 5002000000000]
  from t a have 1: "checkForArticles world0 5001000000000 [] link_empty = ([], link_empty)"
    by blast
  from t h' have 2: "checkForArticles world0 5002000000000 []
        (snd (checkForArticles world0 5001000000000 [] link_empty)) = ([], link_empty)"
    using 1 by simp
  from t s have 3: "checkLink world0 5001000000000 [] link_empty = ([], link_empty)"
    using 1 by simp
  from h h' s 1 2 3 show ?thesis by blast
qed

text \<open>
  A record with four articles, refreshed one second after its last check, loses them.
\<close>

theorem checkForArticles_within_interval_counterexample:
  "State link0 = LinkHasFeed
   \<and> 5001000000000 - LastChecked link0 < 300000000000
   \<and> length (Articles link0) = 4
   \<and> Articles (snd (checkForArticles world0 5001000000000 [] link0)) = []"
  by (simp add: checkForArticles_def time_Sub_less_minCheckDuration link0_def)

subsection \<open>Refresh of a document that is not a feed\<close>

text \<open>
  C4, as amended.  When the interval has passed, the feed URL is fetched with status 200
  and the first start element of the body is none of \<open>rss\<close>, \<open>feed\<close>, \<open>RDF\<close>,
  \<open>checkForArticles\<close> raises no error and leaves state, last error and
  \<open>LastChecked\<close> as they were; the one request is made, and the articles list is
  emptied.  \<open>checkLink\<close> on a record in state \<open>LinkHasFeed\<close> does the same.
\<close>

theorem checkForArticles_unrecognized_root:
  assumes "\<not> moment - LastChecked ld < 300000000000"
    and "forceAbsolute w (BaseUrl ld) (FeedUrl ld) = Inr absU"
    and "client_Get w reqs absU = Inr resp"
    and "StatusCode resp = 200"
    and "firstStartElement (xml_NewDecoder w (Body resp)) = Inr ((tag, attrs), ring)"
    and "tag \<noteq> ''rss''" and "tag \<noteq> ''feed''" and "tag \<noteq> ''RDF''"
  shows "checkForArticles w moment reqs ld = (reqs @ [absU], ld\<lparr>Articles := []\<rparr>)
       \<and> (State ld = LinkHasFeed \<longrightarrow>
            checkLink w moment reqs ld = (reqs @ [absU], ld\<lparr>Articles := []\<rparr>))"
proof -
  have req: "makeFeedRequest w reqs (BaseUrl ld) (FeedUrl ld) = (reqs @ [absU], Inr resp)"
    using assms(2-4) by (simp add: makeFeedRequest_def)
  have pfn: "(parseFunctionForFeed (tag, attrs) :: 'a ArticleParser option) = None"
    using assms(6-8) by (simp add: parseFunctionForFeed_def)
  have 1: "checkForArticles w moment reqs ld = (reqs @ [absU], ld\<lparr>Articles := []\<rparr>)"
    using assms(1,5) req pfn
    by (simp add: checkForArticles_def Let_def time_Sub_less_minCheckDuration)
  then show ?thesis by (simp add: checkLink_HasFeed)
qed

theorem checkForArticles_unrecognized_root_witness:
  "\<not> 9000000000000 - LastChecked link_empty < 300000000000
   \<and> State link_empty = LinkHasFeed
   \<and> checkForArticles world_html 9000000000000 [] link_empty = ([''http://x/feed.xml''], link_empty)
   \<and> checkLink world_html 9000000000000 [] link_empty = ([''http://x/feed.xml''], link_empty)"
proof -
  have 1: "\<not> 9000000000000 - LastChecked link_empty < 300000000000"
    by (simp add: link_empty_def link0_def)
  have 2: "forceAbsolute world_html (BaseUrl link_empty) (FeedUrl link_empty) = Inr ''http://x/feed.xml''"
    by (simp add: forceAbsolute_def world_html_def world0_def link_empty_def link0_def
        resolve0_def HasPrefix_def)
  have 3: "client_Get world_html [] ''http://x/feed.xml''
           = Inr \<lparr>StatusCode = 200, Status = ''200 OK'', ContentType = [''text/xml''],
                  Body = ''html''\<rparr>"
    by (simp add: world_html_def)
  have 4: "firstStartElement (xml_NewDecoder world_html ''html'')
           = Inr ((''html'', []), ([StartElement ''body'' [], EndElement ''body'',
                EndElement ''html''], EOF))"
    by (simp add: world_html_def)
  have s: "State link_empty = LinkHasFeed" and a: "link_empty\<lparr>Articles := []\<rparr> = link_empty"
    by (simp_all add: link_empty_def link0_def)
  from checkForArticles_unrecognized_root [OF 1 2 3, of "''html''" "[]" _] 4 s a 1
  show ?thesis by simp
qed

text \<open>
  The same refresh on a record with four articles: the state stays \<open>LinkHasFeed\<close>,
  the articles are gone.
\<close>

theorem checkForArticles_unrecognized_root_counterexample:
  "State link0 = LinkHasFeed
   \<and> length (Articles link0) = 4
   \<and> Articles (snd (checkForArticles world_html 9000000000000 [] link0)) = []
   \<and> State (snd (checkForArticles world_html 9000000000000 [] link0)) = LinkHasFeed"
  by (simp add: checkForArticles_def time_Sub_less_minCheckDuration link0_def Let_def
      makeFeedRequest_def forceAbsolute_def world_html_def world0_def resolve0_def HasPrefix_def
      parseFunctionForFeed_def)

subsection \<open>Recovery from a transient error\<close>

text \<open>
  C2.  On a record in state \<open>LinkTransientError\<close> the loop body of \<open>checkLink\<close>
  makes no request, sets the state to \<open>LinkHasFeed\<close> if \<open>FeedUrl\<close> is non-empty
  and to \<open>LinkIsNew\<close> otherwise, changes nothing else, and asks for another round:
  the pass continues from the new state.  With a feed URL recorded, the rest of the pass
  is the article refresh alone: the feed URL stays the same, and the only request that
  can be made is the one for the feed, so discovery is not run again.
\<close>

theorem checkLink_TransientError:
  assumes "State ld = LinkTransientError"
  shows "checkLink_switch w moment reqs ld
         = (True, reqs, ld\<lparr>State := (if FeedUrl ld = [] then LinkIsNew else LinkHasFeed)\<rparr>)
       \<and> checkLink w moment reqs ld
         = checkLink w moment reqs
             (ld\<lparr>State := (if FeedUrl ld = [] then LinkIsNew else LinkHasFeed)\<rparr>)
       \<and> (FeedUrl ld \<noteq> [] \<longrightarrow>
            checkLink w moment reqs ld = checkForArticles w moment reqs (ld\<lparr>State := LinkHasFeed\<rparr>)
            \<and> FeedUrl (snd (checkLink w moment reqs ld)) = FeedUrl ld
            \<and> (fst (checkLink w moment reqs ld) = reqs
                \<or> (\<exists>absU. forceAbsolute w (BaseUrl ld) (FeedUrl ld) = Inr absU
                      \<and> fst (checkLink w moment reqs ld) = reqs @ [absU])))"
proof -
  let ?ld' = "ld\<lparr>State := (if FeedUrl ld = [] then LinkIsNew else LinkHasFeed)\<rparr>"
  have 1: "checkLink_switch w moment reqs ld = (True, reqs, ?ld')"
    using assms by (simp add: checkLink_switch_def)
  have 2: "checkLink w moment reqs ld = checkLink w moment reqs ?ld'"
    using assms by (rule checkLink_TransientError_eq)
  have 3: "checkLink w moment reqs ld = checkForArticles w moment reqs (ld\<lparr>State := LinkHasFeed\<rparr>)"
    if "FeedUrl ld \<noteq> []"
    using 2 that by (simp add: checkLink_HasFeed)
  have 4: "FeedUrl (snd (checkLink w moment reqs ld)) = FeedUrl ld" if "FeedUrl ld \<noteq> []"
    using 3 [OF that] by (simp add: checkForArticles_FeedUrl)
  have 5: "fst (checkLink w moment reqs ld) = reqs
           \<or> (\<exists>absU. forceAbsolute w (BaseUrl ld) (FeedUrl ld) = Inr absU
                 \<and> fst (checkLink w moment reqs ld) = reqs @ [absU])"
    if "FeedUrl ld \<noteq> []"
    using 3 [OF that] checkForArticles_requests [of w moment reqs "ld\<lparr>State := LinkHasFeed\<rparr>"]
    by simp
  from 1 2 3 4 5 show ?thesis by blast
qed

text \<open>
  The recovery scenario: a record whose last fetch was refused, processed again when the
  feed answers.
\<close>

theorem checkLink_TransientError_witness:
  "State link_failed = LinkTransientError
   \<and> FeedUrl link_failed = ''/feed.xml''
   \<and> checkLink_switch world_rss 9000000000000 [] link_failed
       = (True, [], link_failed\<lparr>State := LinkHasFeed\<rparr>)
   \<and> checkLink world_rss 9000000000000 [] link_failed
       = ([''http://x/feed.xml''],
          link_failed\<lparr>State := LinkHasFeed, LastChecked := 9000000000000,
                       Articles := articles_rss\<rparr>)"
proof -
  have s: "State link_failed = LinkTransientError" and f: "FeedUrl link_failed = ''/feed.xml''"
    by (simp_all add: link_failed_def link_empty_def link0_def)
  note t = checkLink_TransientError [OF s, of world_rss 9000000000000 "[]"]
  have e: "checkForArticles world_rss 9000000000000 [] (link_failed\<lparr>State := LinkHasFeed\<rparr>)
           = ([''http://x/feed.xml''],
              link_failed\<lparr>State := LinkHasFeed, LastChecked := 9000000000000,
                           Articles := articles_rss\<rparr>)"
    by (simp add: eval_defs world_rss_def rssTokens_def link_failed_def link_empty_def link0_def
        articles_rss_def)
  have f': "FeedUrl link_failed \<noteq> []" by (simp add: f)
  from t have "checkLink_switch world_rss 9000000000000 [] link_failed
       = (True, [], link_failed\<lparr>State := (if FeedUrl link_failed = [] then LinkIsNew else LinkHasFeed)\<rparr>)"
    by (rule conjunct1)
  with f' have 1: "checkLink_switch world_rss 9000000000000 [] link_failed
       = (True, [], link_failed\<lparr>State := LinkHasFeed\<rparr>)"
    by simp
  from t f' have "checkLink world_rss 9000000000000 [] link_failed
       = checkForArticles world_rss 9000000000000 [] (link_failed\<lparr>State := LinkHasFeed\<rparr>)"
    by blast
  with e have 2: "checkLink world_rss 9000000000000 [] link_failed
       = ([''http://x/feed.xml''],
          link_failed\<lparr>State := LinkHasFeed, LastChecked := 9000000000000,
                       Articles := articles_rss\<rparr>)"
    by simp
  from s f 1 2 show ?thesis by blast
qed

subsection \<open>The articles list is sorted\<close>

text \<open>
  C8.  Given that \<open>sort.Sort\<close> sorts, the articles of a record are in ascending order
  of publish time after every \<open>checkForArticles\<close>, whatever its outcome and whatever
  the list was before; the result of a refresh does not depend on the old list, which is
  replaced, not merged; \<open>checkLink\<close> keeps a sorted list sorted; and a record made by
  \<open>InterestedIn\<close> starts with no articles.
\<close>

theorem Articles_sorted:
  assumes "sort_Sort_contract w"
  shows "sorted (map PubDate (Articles (snd (checkForArticles w moment reqs ld))))
       \<and> checkForArticles w moment reqs (ld\<lparr>Articles := old\<rparr>) = checkForArticles w moment reqs ld
       \<and> (sorted (map PubDate (Articles ld)) \<longrightarrow>
            sorted (map PubDate (Articles (snd (checkLink w moment reqs ld)))))
       \<and> (Links ls url = None \<longrightarrow>
            (\<exists>new. Links (InterestedIn ls url title) url = Some new \<and> Articles new = []))"
proof -
  have "checkForArticles w moment reqs (ld\<lparr>Articles := old\<rparr>) = checkForArticles w moment reqs ld"
    by (simp add: checkForArticles_def)
  moreover have "Links ls url = None \<longrightarrow>
            (\<exists>new. Links (InterestedIn ls url title) url = Some new \<and> Articles new = [])"
    by (simp add: InterestedIn_def)
  ultimately show ?thesis
    using assms by (simp add: checkForArticles_sorted checkLink_sorted)
qed

text \<open>
  A refresh of the feed of \<open>world_rss\<close>, whose items come newest first, on a record
  holding four older articles.
\<close>

theorem Articles_sorted_witness:
  "sort_Sort_contract world_rss
   \<and> map PubDate (Articles link0) = [99, 100, 101, 102]
   \<and> Articles (snd (checkForArticles world_rss 9000000000000 [] link0)) = articles_rss
   \<and> map PubDate articles_rss = [2000, 3000]
   \<and> sorted (map PubDate (Articles (snd (checkForArticles world_rss 9000000000000 [] link0))))
   \<and> sorted (map PubDate (Articles (snd (checkLink world_rss 9000000000000 [] link0))))
   \<and> Links newStore ''http://x/'' = None"
proof -
  have c: "sort_Sort_contract world_rss"
    by (rule sortBy_contract) (simp add: world_rss_def world0_def)
  have old: "map PubDate (Articles link0) = [99, 100, 101, 102]"
    by (simp add: link0_def art_def)
  have e: "Articles (snd (checkForArticles world_rss 9000000000000 [] link0)) = articles_rss"
    by (simp add: eval_defs world_rss_def rssTokens_def link0_def articles_rss_def)
  have p: "map PubDate articles_rss = [2000, 3000]"
    by (simp add: articles_rss_def)
  have n: "Links newStore ''http://x/'' = None"
    by (simp add: newStore_def)
  note t = Articles_sorted [OF c, of 9000000000000 "[]" link0 "[]" newStore "''http://x/''" "''X''"]
  from t have 1: "sorted (map PubDate (Articles (snd (checkForArticles world_rss 9000000000000 [] link0))))"
    by (rule conjunct1)
  from t old have 2: "sorted (map PubDate (Articles (snd (checkLink world_rss 9000000000000 [] link0))))"
    by simp
  from c old e p 1 2 n show ?thesis by blast
qed

subsection \<open>A feed the decoder rejects\<close>

text \<open>
  C5, as amended.  The strict decoder reports a closing tag that does not match the open
  element as a syntax error, so the item's own closing tag is never delivered.  When the
  feed is fetched (interval passed, status 200), its root is \<open>rss\<close>, \<open>feed\<close> or
  \<open>RDF\<close>, and the decoder ends in such an error, the refresh fails with an error that
  is not transient; the error is recorded (state \<open>LinkTransientError\<close>,
  \<open>LastError\<close>), \<open>LastChecked\<close> stays as it is, and the articles list is left
  empty: neither the prior list nor the articles parsed before the error are kept.
\<close>

theorem checkForArticles_parse_error:
  assumes late: "\<not> moment - LastChecked ld < 300000000000"
    and url: "forceAbsolute w (BaseUrl ld) (FeedUrl ld) = Inr absU"
    and get: "client_Get w reqs absU = Inr resp"
    and ok: "StatusCode resp = 200"
    and first: "firstStartElement (xml_NewDecoder w (Body resp))
                = Inr ((tag, attrs), (toks, OtherError msg))"
    and root: "tag = ''rss'' \<or> tag = ''feed'' \<or> tag = ''RDF''"
  shows "\<exists>err. \<not> IsTransient (Some err)
           \<and> checkForArticles w moment reqs ld
               = (reqs @ [absU],
                  ld\<lparr>State := LinkTransientError, LastError := Some err, Articles := []\<rparr>)"
proof -
  let ?ring = "(toks, OtherError msg)"
  let ?link = "ld\<lparr>Articles := []\<rparr>"
  have req: "makeFeedRequest w reqs (BaseUrl ld) (FeedUrl ld) = (reqs @ [absU], Inr resp)"
    using url get ok by (simp add: makeFeedRequest_def)
  have pfn: "(parseFunctionForFeed (tag, attrs) :: 'a ArticleParser option) = Some feedParser"
    using root by (auto simp: parseFunctionForFeed_def)
  have "fst (feedParser w ?ring (tag, attrs) ?link) \<noteq> None"
    by (rule feedParser_fails) simp
  then obtain err link' where fp: "feedParser w ?ring (tag, attrs) ?link = (Some err, link')"
    by (cases "feedParser w ?ring (tag, attrs) ?link") auto
  from feedParser_error_permanent [OF fp] have perm: "\<not> IsTransient (Some err)"
    by simp
  from feedParser_fields [OF fp] obtain arts where l: "link' = ld\<lparr>Articles := arts\<rparr>"
    by simp
  have "(ErrorOccurred link' err)\<lparr>Articles := []\<rparr>
        = ld\<lparr>State := LinkTransientError, LastError := Some err, Articles := []\<rparr>"
    unfolding l by (simp add: ErrorOccurred_def)
  then have "checkForArticles w moment reqs ld
             = (reqs @ [absU],
                ld\<lparr>State := LinkTransientError, LastError := Some err, Articles := []\<rparr>)"
    using late req first pfn fp
    by (simp add: checkForArticles_def time_Sub_less_minCheckDuration)
  with perm show ?thesis by blast
qed

text \<open>
  The feed of \<open>world_bad\<close>: its item is open when the decoder meets
  \<open></channel>\<close>.
\<close>

theorem checkForArticles_parse_error_witness:
  "\<not> 9000000000000 - LastChecked link_empty < 300000000000
   \<and> \<not> IsTransient (Some syntaxError)
   \<and> checkForArticles world_bad 9000000000000 [] link_empty
       = ([''http://x/feed.xml''],
          link_empty\<lparr>State := LinkTransientError, LastError := Some syntaxError\<rparr>)"
proof -
  have 1: "\<not> 9000000000000 - LastChecked link_empty < 300000000000"
    by (simp add: link_empty_def link0_def)
  have 2: "forceAbsolute world_bad (BaseUrl link_empty) (FeedUrl link_empty) = Inr ''http://x/feed.xml''"
    by (simp add: forceAbsolute_def world_bad_def world0_def link_empty_def link0_def
        resolve0_def HasPrefix_def)
  have 3: "client_Get world_bad [] ''http://x/feed.xml''
           = Inr \<lparr>StatusCode = 200, Status = ''200 OK'',
                  ContentType = [''application/rss+xml''], Body = ''bad''\<rparr>"
    by (simp add: world_bad_def)
  have 4: "firstStartElement (xml_NewDecoder world_bad ''bad'')
           = Inr ((''rss'', []),
                  ([StartElement ''channel'' [], StartElement ''item'' [],
                    StartElement ''title'' [], CharData ''Third'', EndElement ''title''],
                   OtherError ''XML syntax error on line 7: element <item> closed by </channel>''))"
    by (simp add: world_bad_def)
  from checkForArticles_parse_error [OF 1 2 3, of "''rss''" "[]" _ _] 4
  obtain err where p: "\<not> IsTransient (Some err)"
    and r: "checkForArticles world_bad 9000000000000 [] link_empty
            = ([''http://x/feed.xml''],
               link_empty\<lparr>State := LinkTransientError, LastError := Some err, Articles := []\<rparr>)"
    by auto
  have e: "checkForArticles world_bad 9000000000000 [] link_empty
           = ([''http://x/feed.xml''],
              link_empty\<lparr>State := LinkTransientError, LastError := Some syntaxError\<rparr>)"
    by (simp add: eval_defs world_bad_def link_empty_def link0_def syntaxError_def)
  from r e have "LastError (link_empty\<lparr>State := LinkTransientError, LastError := Some err, Articles := []\<rparr>)
                 = LastError (link_empty\<lparr>State := LinkTransientError, LastError := Some syntaxError\<rparr>)"
    by simp
  then have "err = syntaxError" by simp
  with p 1 e show ?thesis by simp
qed

text \<open>
  The same refresh on a record with four articles: the error is permanent, and the prior
  list is gone.
\<close>

theorem checkForArticles_parse_error_counterexample:
  "length (Articles link0) = 4
   \<and> Articles (snd (checkForArticles world_bad 9000000000000 [] link0)) = []
   \<and> LastError (snd (checkForArticles world_bad 9000000000000 [] link0)) = Some syntaxError
   \<and> \<not> IsTransient (Some syntaxError)"
  by (simp add: eval_defs world_bad_def link0_def syntaxError_def)

subsection \<open>The publish time of an article\<close>

text \<open>
  C6, as amended.  \<open>parseTime\<close> tries the six formats in their fixed order (RFC 822,
  RFC 822 with numeric zone, RFC 1123, RFC 1123 with numeric zone, RFC 3339,
  \<open>2006-1-2\<close>) and returns the time of the first that parses; if none does, it fails
  with the error "Could not parse time".  Every \<open>pubDate\<close>, \<open>updated\<close> or
  \<open>date\<close> element of an item is parsed when it closes and overwrites the publish time.
  So an article that is returned has the time of the last such element of its item,
  whatever follows the item in the document, and the decoder is left just after the
  item's closing tag; an item with such an element that no format parses yields an error,
  not an article; an item whose other tokens are plain and whose only date element parses
  is returned with that time; an item with no such element is returned with the zero
  time; and \<open>feedParser\<close> appends the article returned to the record's list.
  Here \<open>item\<close> is what the decoder delivers after the start of the item: \<open>pre\<close>,
  the last date element with the text \<open>concat ss\<close>, \<open>post\<close>, the closing tag of
  the item, and \<open>rest\<close>, the remainder of the document.
\<close>

theorem genericExtractArticle_PubDate:
  assumes name: "name = ''pubDate'' \<or> name = ''updated'' \<or> name = ''date''"
    and close: "close = ''item'' \<or> close = ''entry''"
    and pre: "EndElement ''item'' \<notin> set pre" "EndElement ''entry'' \<notin> set pre"
    and post: "EndElement ''pubDate'' \<notin> set post" "EndElement ''updated'' \<notin> set post"
      "EndElement ''date'' \<notin> set post"
      "EndElement ''item'' \<notin> set post" "EndElement ''entry'' \<notin> set post"
    and item: "item = pre @ StartElement name attrs # map CharData ss @ EndElement name # post
                      @ EndElement close # rest"
  shows "formats = [''02 Jan 06 15:04 MST'', ''02 Jan 06 15:04 -0700'',
                    ''Mon, 02 Jan 2006 15:04:05 MST'', ''Mon, 02 Jan 2006 15:04:05 -0700'',
                    ''2006-01-02T15:04:05Z07:00'', ''2006-1-2'']
       \<and> (parseTime w accum = Inr tm \<longleftrightarrow>
            (\<exists>i < length formats. time_Parse w (formats ! i) accum = Some tm
               \<and> (\<forall>j < i. time_Parse w (formats ! j) accum = None)))
       \<and> (parseTime w accum = Inl err \<longleftrightarrow>
            (\<forall>format \<in> set formats. time_Parse w format accum = None)
            \<and> err = MkError (''Could not parse time: '' @ accum))
       \<and> (genericExtractArticle w (item, e) link atom = (Inr article, ring') \<longrightarrow>
            parseTime w (concat ss) = Inr (PubDate article) \<and> ring' = (rest, e))
       \<and> ((\<forall>format \<in> set formats. time_Parse w format (concat ss) = None) \<longrightarrow>
            (\<exists>err' ring''.
               genericExtractArticle w
                 (pre @ StartElement name attrs # map CharData ss @ EndElement name # later, e)
                 link atom
               = (Inl err', ring'')))
       \<and> (list_all (plainToken atom) pre \<and> list_all (plainToken atom) post
            \<and> parseTime w (concat ss) = Inr tm' \<longrightarrow>
            (\<exists>parsed. genericExtractArticle w (item, e) link atom = (Inr parsed, (rest, e))
                      \<and> PubDate parsed = tm'))
       \<and> (EndElement ''pubDate'' \<notin> set pre \<and> EndElement ''updated'' \<notin> set pre
            \<and> EndElement ''date'' \<notin> set pre
            \<and> genericExtractArticle w (pre @ EndElement close # rest, e) link atom
                = (Inr undated, ring0) \<longrightarrow>
            PubDate undated = zeroTime \<and> ring0 = (rest, e))
       \<and> (opening = ''item'' \<or> opening = ''entry'' \<longrightarrow>
            feedParser w (StartElement opening attrs0 # item, e) root l
            = (case genericExtractArticle w (item, e) l (opening = ''entry'') of
                 (Inl err, ring') \<Rightarrow> (Some err, l)
               | (Inr parsed, ring') \<Rightarrow>
                   feedParser w ring' root (l\<lparr>Articles := Articles l @ [parsed]\<rparr>)))"
proof -
  let ?tail = "post @ EndElement close # rest"
  let ?elem = "StartElement name attrs # map CharData ss @ EndElement name # ?tail"
  have 1: "parseTime w accum = Inr tm \<longleftrightarrow>
            (\<exists>i < length formats. time_Parse w (formats ! i) accum = Some tm
               \<and> (\<forall>j < i. time_Parse w (formats ! j) accum = None))"
    unfolding parseTime_def by (rule parseTime_loop_Inr)
  have 2: "parseTime w accum = Inl err \<longleftrightarrow>
            (\<forall>format \<in> set formats. time_Parse w format accum = None)
            \<and> err = MkError (''Could not parse time: '' @ accum)"
    unfolding parseTime_def by (rule parseTime_loop_Inl)
  have reach:
    "(\<exists>err' ring''. genericExtractArticle w (item, e) link atom = (Inl err', ring''))
     \<or> (\<exists>accum' rv'. genericExtractArticle w (item, e) link atom
                      = genericExtractArticle_loop w atom accum' rv' (?elem, e))"
    using loop_prefix [OF pre, of w atom "[]" emptyArticle ?elem e]
    unfolding genericExtractArticle_def item by simp
  have 3: "parseTime w (concat ss) = Inr (PubDate article) \<and> ring' = (rest, e)"
    if ok: "genericExtractArticle w (item, e) link atom = (Inr article, ring')"
    using reach
  proof (elim disjE exE)
    fix err' ring''
    assume "genericExtractArticle w (item, e) link atom = (Inl err', ring'')"
    with ok show ?thesis by simp
  next
    fix accum' rv'
    assume reached: "genericExtractArticle w (item, e) link atom
                     = genericExtractArticle_loop w atom accum' rv' (?elem, e)"
    show ?thesis
    proof (cases "parseTime w (concat ss)")
      case (Inl er)
      with reached ok loop_date_element [OF name, of w atom accum' rv' attrs ss ?tail e]
      show ?thesis by simp
    next
      case (Inr t)
      with reached ok loop_date_element [OF name, of w atom accum' rv' attrs ss ?tail e]
      have "genericExtractArticle_loop w atom (concat ss) (rv'\<lparr>PubDate := t\<rparr>) (?tail, e)
            = (Inr article, ring')"
        by simp
      from loop_to_close [OF close post this] Inr show ?thesis by simp
    qed
  qed
  have 4: "\<exists>err' ring''.
             genericExtractArticle w
               (pre @ StartElement name attrs # map CharData ss @ EndElement name # later, e)
               link atom
             = (Inl err', ring'')"
    if none: "\<forall>format \<in> set formats. time_Parse w format (concat ss) = None"
  proof -
    let ?el = "StartElement name attrs # map CharData ss @ EndElement name # later"
    from none have bad: "parseTime w (concat ss) = Inl (MkError (''Could not parse time: '' @ concat ss))"
      unfolding parseTime_def by (simp add: parseTime_loop_Inl)
    from loop_prefix [OF pre, of w atom "[]" emptyArticle ?el e]
    show ?thesis
    proof (elim disjE exE)
      fix err' ring''
      assume "genericExtractArticle_loop w atom [] emptyArticle (pre @ ?el, e) = (Inl err', ring'')"
      then show ?thesis by (simp add: genericExtractArticle_def)
    next
      fix accum' rv'
      assume "genericExtractArticle_loop w atom [] emptyArticle (pre @ ?el, e)
              = genericExtractArticle_loop w atom accum' rv' (?el, e)"
      with bad loop_date_element [OF name, of w atom accum' rv' attrs ss later e]
      show ?thesis by (simp add: genericExtractArticle_def)
    qed
  qed
  have 5: "\<exists>parsed. genericExtractArticle w (item, e) link atom = (Inr parsed, (rest, e))
                    \<and> PubDate parsed = tm'"
    if pl: "list_all (plainToken atom) pre" "list_all (plainToken atom) post"
      and tm': "parseTime w (concat ss) = Inr tm'"
  proof -
    from loop_plain [OF pl(1), of w "[]" emptyArticle ?elem e]
    obtain accum1 rv1 where a:
      "genericExtractArticle w (item, e) link atom
       = genericExtractArticle_loop w atom accum1 rv1 (?elem, e)"
      unfolding genericExtractArticle_def item by auto
    from loop_plain [OF pl(2), of w "concat ss" "rv1\<lparr>PubDate := tm'\<rparr>" "EndElement close # rest" e]
    obtain accum2 rv2 where b:
      "genericExtractArticle_loop w atom (concat ss) (rv1\<lparr>PubDate := tm'\<rparr>) (?tail, e)
       = genericExtractArticle_loop w atom accum2 rv2 (EndElement close # rest, e)"
      and p: "PubDate rv2 = tm'"
      by auto
    have "genericExtractArticle w (item, e) link atom = (Inr rv2, (rest, e))"
      using a b tm' loop_date_element [OF name, of w atom accum1 rv1 attrs ss ?tail e]
      by (simp add: switch_close [OF close])
    with p show ?thesis by blast
  qed
  have 6: "PubDate undated = zeroTime \<and> ring0 = (rest, e)"
    if "EndElement ''pubDate'' \<notin> set pre" "EndElement ''updated'' \<notin> set pre"
      "EndElement ''date'' \<notin> set pre"
      "genericExtractArticle w (pre @ EndElement close # rest, e) link atom = (Inr undated, ring0)"
    using loop_to_close [OF close that(1-3) pre, of w atom "[]" emptyArticle rest e undated ring0]
      that(4)
    by (simp add: genericExtractArticle_def emptyArticle_def)
  have 7: "feedParser w (StartElement opening attrs0 # item, e) root l
            = (case genericExtractArticle w (item, e) l (opening = ''entry'') of
                 (Inl err, ring') \<Rightarrow> (Some err, l)
               | (Inr parsed, ring') \<Rightarrow>
                   feedParser w ring' root (l\<lparr>Articles := Articles l @ [parsed]\<rparr>))"
    if "opening = ''item'' \<or> opening = ''entry''"
    using that by (rule feedParser_item)
  have 0: "formats = [''02 Jan 06 15:04 MST'', ''02 Jan 06 15:04 -0700'',
                    ''Mon, 02 Jan 2006 15:04:05 MST'', ''Mon, 02 Jan 2006 15:04:05 -0700'',
                    ''2006-01-02T15:04:05Z07:00'', ''2006-1-2'']"
    by (simp add: formats_def)
  from 0 1 2 3 4 5 6 7 show ?thesis by blast
qed


text \<open>
  An item with a \<open>pubDate\<close> of 2 January and a \<open>date\<close> of 3 January, followed
  by another item with a date.
\<close>

theorem genericExtractArticle_PubDate_witness:
  "genericExtractArticle world0 (itemTokens @ nextItem, EOF) link0 False
   = (Inr \<lparr>ArtUrl = [], ArtTitle = ''T'', PubDate = 3000\<rparr>, (nextItem, EOF))
   \<and> parseTime world0 ''2020-1-3'' = Inr 3000
   \<and> time_Parse world0 ''2006-1-2'' ''2020-1-3'' = Some 3000"
proof -
  let ?pre = "[StartElement ''title'' [], CharData ''T'', EndElement ''title'',
               StartElement ''pubDate'' [], CharData ''2020-1-2'', EndElement ''pubDate'']"
  let ?a = "\<lparr>ArtUrl = [], ArtTitle = ''T'', PubDate = 3000\<rparr>"
  have e: "genericExtractArticle world0 (itemTokens @ nextItem, EOF) link0 False
           = (Inr ?a, (nextItem, EOF))"
    by (simp add: eval_defs itemTokens_def nextItem_def)
  have i: "itemTokens @ nextItem
           = ?pre @ StartElement ''date'' [] # map CharData [''2020-1-3'']
             @ EndElement ''date'' # [] @ EndElement ''item'' # nextItem"
    by (simp add: itemTokens_def)
  have name: "''date'' = ''pubDate'' \<or> ''date'' = ''updated'' \<or> ''date'' = ''date''"
    and close: "''item'' = ''item'' \<or> ''item'' = ''entry''"
    by simp_all
  have pre: "EndElement ''item'' \<notin> set ?pre" "EndElement ''entry'' \<notin> set ?pre"
    by simp_all
  have post: "EndElement ''pubDate'' \<notin> set []" "EndElement ''updated'' \<notin> set []"
    "EndElement ''date'' \<notin> set []" "EndElement ''item'' \<notin> set []"
    "EndElement ''entry'' \<notin> set []"
    by simp_all
  note t = genericExtractArticle_PubDate [OF name close pre post i,
      where w = world0 and e = EOF and link = link0 and atom = False and article = ?a
        and ring' = "(nextItem, EOF)"]
  from t have "genericExtractArticle world0 (itemTokens @ nextItem, EOF) link0 False
          = (Inr ?a, (nextItem, EOF)) \<longrightarrow>
        parseTime world0 (concat [''2020-1-3'']) = Inr (PubDate ?a)
        \<and> (nextItem, EOF) = (nextItem, EOF)"
    by blast
  with e have p: "parseTime world0 ''2020-1-3'' = Inr 3000" by simp
  have t: "time_Parse world0 ''2006-1-2'' ''2020-1-3'' = Some 3000"
    by (simp add: world0_def parse0_def)
  from e p t show ?thesis by blast
qed

text \<open>
  In that item the first of the date elements is the \<open>pubDate\<close>, which parses to 2000;
  the article gets 3000, the time of the \<open>date\<close> element after it.
\<close>

theorem genericExtractArticle_PubDate_counterexample:
  "take 3 (drop 3 itemTokens)
     = [StartElement ''pubDate'' [], CharData ''2020-1-2'', EndElement ''pubDate'']
   \<and> parseTime world0 ''2020-1-2'' = Inr 2000
   \<and> fst (genericExtractArticle world0 (itemTokens, EOF) link0 False)
     = Inr \<lparr>ArtUrl = [], ArtTitle = ''T'', PubDate = 3000\<rparr>"
  by (simp add: eval_defs itemTokens_def)

subsection \<open>Feed discovery\<close>

text \<open>
  C7, as amended.  \<open>findFeedUrl\<close> fetches the page and goes through its links in page
  order.  It makes a request only for a candidate (title containing \<open>rss\<close>,
  \<open>atom\<close> or \<open>feed\<close>, or URL ending with one of the seven suffixes, both
  lower-cased), and for every candidate it meets whose URL resolves.  The first link that
  is accepted (a candidate answered with status 200, a feed content type and a feed root as
  first start element) ends the search: its URL, as written on the page, is returned, and
  the requests made are the page, then the candidates up to and including that link.  The
  links after it are not examined.
\<close>

theorem findFeedUrl_first_accepted:
  assumes page: "client_Get w reqs (BaseUrl ld) = Inr resp" "StatusCode resp = 200"
    and links: "Extract (html_NewTokenizer w (Body resp)) = (pre @ link # post, err)"
    and rejected: "\<forall>i < length pre.
        \<not> spec_accepted w (reqs @ [BaseUrl ld] @ spec_probes w (BaseUrl ld) (take i pre))
            (BaseUrl ld) (pre ! i)"
    and accepted: "spec_accepted w (reqs @ [BaseUrl ld] @ spec_probes w (BaseUrl ld) pre)
                     (BaseUrl ld) link"
  shows "findFeedUrl w reqs ld
         = (reqs @ [BaseUrl ld] @ spec_probes w (BaseUrl ld) (pre @ [link]), Inr (LinkUrl link))"
proof -
  let ?reqs = "reqs @ [BaseUrl ld]"
  have "findFeedUrl w reqs ld = findFeedUrl_loop w ?reqs ld (pre @ link # post)"
    using page links by (simp add: findFeedUrl_def split: option.splits)
  also have "\<dots> = findFeedUrl_loop w (?reqs @ spec_probes w (BaseUrl ld) pre) ld (link # post)"
    using rejected by (intro findFeedUrl_loop_rejected) simp
  also have "\<dots> = ((?reqs @ spec_probes w (BaseUrl ld) pre) @ spec_probes w (BaseUrl ld) [link],
                    Inr (LinkUrl link))"
    using accepted by (simp add: checkForFeedUrl_spec)
  finally show ?thesis by (simp add: spec_probes_append)
qed


text \<open>
  The page of \<open>world_two\<close> has four links: \<open>Atom\<close> (its request is refused),
  \<open>RSS Feed\<close> (a feed), \<open>Archive\<close> at \<open>/old/feed\<close>, and \<open>About\<close>.
\<close>

theorem findFeedUrl_first_accepted_witness:
  "\<not> spec_accepted world_two [''http://x/''] ''http://x/''
       \<lparr>LinkTitle = ''Atom'', LinkUrl = ''/atom.xml''\<rparr>
   \<and> spec_accepted world_two [''http://x/'', ''http://x/atom.xml''] ''http://x/''
       \<lparr>LinkTitle = ''RSS Feed'', LinkUrl = ''/feed.xml''\<rparr>
   \<and> findFeedUrl world_two [] link_new
       = ([''http://x/'', ''http://x/atom.xml'', ''http://x/feed.xml''], Inr ''/feed.xml'')"
proof -
  let ?atom = "\<lparr>LinkTitle = ''Atom'', LinkUrl = ''/atom.xml''\<rparr>"
  let ?rss = "\<lparr>LinkTitle = ''RSS Feed'', LinkUrl = ''/feed.xml''\<rparr>"
  let ?post = "[\<lparr>LinkTitle = ''Archive'', LinkUrl = ''/old/feed''\<rparr>,
                \<lparr>LinkTitle = ''About'', LinkUrl = ''/about''\<rparr>]"
  let ?resp = "\<lparr>StatusCode = 200, Status = ''200 OK'', ContentType = [''text/html''],
                Body = ''page''\<rparr>"
  have page: "client_Get world_two [] (BaseUrl link_new) = Inr ?resp"
    by (simp add: world_two_def world_rss_def link_new_def)
  have ok: "StatusCode ?resp = 200" by simp
  have links: "Extract (html_NewTokenizer world_two (Body ?resp)) = ([?atom] @ ?rss # ?post, None)"
    by (simp add: Extract_world_two)
  have r: "\<not> spec_accepted world_two [''http://x/''] ''http://x/'' ?atom"
    by (simp add: discovery_defs)
  have a: "spec_accepted world_two [''http://x/'', ''http://x/atom.xml''] ''http://x/'' ?rss"
    by (simp add: discovery_defs)
  have p: "spec_probes world_two ''http://x/'' [?atom] = [''http://x/atom.xml'']"
    by (simp add: discovery_defs)
  have p2: "spec_probes world_two ''http://x/'' [?atom, ?rss]
            = [''http://x/atom.xml'', ''http://x/feed.xml'']"
    by (simp add: discovery_defs)
  have b: "BaseUrl link_new = ''http://x/''" by (simp add: link_new_def)
  have rejected: "\<forall>i < length [?atom].
        \<not> spec_accepted world_two ([] @ [BaseUrl link_new]
              @ spec_probes world_two (BaseUrl link_new) (take i [?atom]))
            (BaseUrl link_new) ([?atom] ! i)"
    using r by (simp add: b spec_probes_def)
  have accepted: "spec_accepted world_two ([] @ [BaseUrl link_new]
              @ spec_probes world_two (BaseUrl link_new) [?atom]) (BaseUrl link_new) ?rss"
    using a by (simp add: b p)
  from findFeedUrl_first_accepted [OF page ok links rejected accepted]
  have "findFeedUrl world_two [] link_new
        = ([''http://x/'', ''http://x/atom.xml'', ''http://x/feed.xml''], Inr ''/feed.xml'')"
    by (simp add: b p2)
  with r a show ?thesis by blast
qed

text \<open>
  On that page \<open>Archive\<close> is a candidate, by its URL, and it is never requested:
  discovery has returned at \<open>RSS Feed\<close>.
\<close>

theorem findFeedUrl_probes_counterexample:
  "fst (Extract (html_NewTokenizer world_two ''page'')) ! 2
     = \<lparr>LinkTitle = ''Archive'', LinkUrl = ''/old/feed''\<rparr>
   \<and> spec_candidate \<lparr>LinkTitle = ''Archive'', LinkUrl = ''/old/feed''\<rparr>
   \<and> forceAbsolute world_two ''http://x/'' ''/old/feed'' = Inr ''http://x/old/feed''
   \<and> findFeedUrl world_two [] link_new
       = ([''http://x/'', ''http://x/atom.xml'', ''http://x/feed.xml''], Inr ''/feed.xml'')
   \<and> ''http://x/old/feed'' \<notin> set (fst (findFeedUrl world_two [] link_new))"
proof -
  have 1: "fst (Extract (html_NewTokenizer world_two ''page'')) ! 2
           = \<lparr>LinkTitle = ''Archive'', LinkUrl = ''/old/feed''\<rparr>"
    by (simp add: Extract_world_two)
  have "namedLikeFeedLink \<lparr>LinkTitle = ''Archive'', LinkUrl = ''/old/feed''\<rparr>"
    by (simp add: discovery_defs)
  then have 2: "spec_candidate \<lparr>LinkTitle = ''Archive'', LinkUrl = ''/old/feed''\<rparr>"
    by (simp add: namedLikeFeedLink_iff)
  have 3: "forceAbsolute world_two ''http://x/'' ''/old/feed'' = Inr ''http://x/old/feed''"
    by (simp add: discovery_defs)
  have b: "BaseUrl link_new = ''http://x/''" by (simp add: link_new_def)
  have g: "client_Get world_two [] ''http://x/''
           = Inr \<lparr>StatusCode = 200, Status = ''200 OK'', ContentType = [''text/html''],
                  Body = ''page''\<rparr>"
    by (simp add: world_two_def world_rss_def)
  have "findFeedUrl world_two [] link_new
        = findFeedUrl_loop world_two [''http://x/''] link_new
            [\<lparr>LinkTitle = ''Atom'', LinkUrl = ''/atom.xml''\<rparr>,
             \<lparr>LinkTitle = ''RSS Feed'', LinkUrl = ''/feed.xml''\<rparr>,
             \<lparr>LinkTitle = ''Archive'', LinkUrl = ''/old/feed''\<rparr>,
             \<lparr>LinkTitle = ''About'', LinkUrl = ''/about''\<rparr>]"
    by (simp add: findFeedUrl_def b g Extract_world_two)
  also have "\<dots> = ([''http://x/'', ''http://x/atom.xml'', ''http://x/feed.xml''], Inr ''/feed.xml'')"
    by (simp add: checkForFeedUrl_def makeFeedRequest_def discovery_defs)
  finally have 4: "findFeedUrl world_two [] link_new
           = ([''http://x/'', ''http://x/atom.xml'', ''http://x/feed.xml''], Inr ''/feed.xml'')" .
  from 1 2 3 4 show ?thesis by simp
qed

subsection \<open>The feed URL of a record that has a feed\<close>

text \<open>
  C1.  The claim: after every pass of \<open>checkLink\<close>, a record in state
  \<open>LinkHasFeed\<close> has a non-empty \<open>FeedUrl\<close>.  The code breaks it for a bookmark
  that is itself an Atom feed whose self link has an empty \<open>href\<close>: \<open>Extract\<close>
  returns the link with an empty URL, its \<open>type\<close> makes it a candidate, the empty
  reference resolves to the page, which answers as a feed, and \<open>checkForFeedUrl\<close>
  returns the URL as written.  The pass on the record that \<open>InterestedIn\<close> creates
  ends in \<open>LinkHasFeed\<close> with an empty \<open>FeedUrl\<close>, the value that the
  \<open>LinkTransientError\<close> case of \<open>checkLink\<close> reads as "no feed recorded".
\<close>

theorem checkLink_HasFeed_empty_FeedUrl:
  "Links (InterestedIn newStore ''http://x/atom.xml'' ''Atom'') ''http://x/atom.xml'' = Some link_self
   \<and> Extract (html_NewTokenizer world_self ''atom'')
       = ([\<lparr>LinkTitle = ''application/atom+xml'', LinkUrl = []\<rparr>,
           \<lparr>LinkTitle = ''Some Link'', LinkUrl = ''/e1''\<rparr>], None)
   \<and> checkLink world_self 9000000000000 [] link_self
       = ([''http://x/atom.xml'', ''http://x/atom.xml'', ''http://x/atom.xml''],
          link_self\<lparr>State := LinkHasFeed, LastChecked := 9000000000000,
                    Articles := [\<lparr>ArtUrl = ''http://x/e1'', ArtTitle = ''Entry'',
                                  PubDate = 2000\<rparr>]\<rparr>)
   \<and> State (snd (checkLink world_self 9000000000000 [] link_self)) = LinkHasFeed
   \<and> FeedUrl (snd (checkLink world_self 9000000000000 [] link_self)) = []"
proof -
  have 1: "Links (InterestedIn newStore ''http://x/atom.xml'' ''Atom'') ''http://x/atom.xml''
           = Some link_self"
    by (simp add: InterestedIn_def newStore_def link_self_def)
  have 2: "Extract (html_NewTokenizer world_self body)
           = ([\<lparr>LinkTitle = ''application/atom+xml'', LinkUrl = []\<rparr>,
           \<lparr>LinkTitle = ''Some Link'', LinkUrl = ''/e1''\<rparr>], None)" for body
    by (simp add: Extract_def world_self_def atomPage_def checkTag_def checkForLINK_def
        findAttr_def)
  have b: "BaseUrl link_self = ''http://x/atom.xml''" and s: "State link_self = LinkIsNew"
    by (simp_all add: link_self_def)
  have g: "client_Get world_self reqs ''http://x/atom.xml''
           = Inr \<lparr>StatusCode = 200, Status = ''200 OK'',
                  ContentType = [''application/atom+xml''], Body = ''atom''\<rparr>" for reqs
    by (simp add: world_self_def)
  have "findFeedUrl world_self [] link_self
        = findFeedUrl_loop world_self [''http://x/atom.xml''] link_self
            [\<lparr>LinkTitle = ''application/atom+xml'', LinkUrl = []\<rparr>,
             \<lparr>LinkTitle = ''Some Link'', LinkUrl = ''/e1''\<rparr>]"
    by (simp add: findFeedUrl_def b g 2)
  also have "\<dots> = ([''http://x/atom.xml'', ''http://x/atom.xml''], Inr [])"
    by (simp add: checkForFeedUrl_def makeFeedRequest_def namedLikeFeedLink_def feedHints_def
        ToLower_def lowerChar_def HasPrefix_def forceAbsolute_def resolve0_def
        validFeedContentType_def contentTypes_def recognizedFeedFormat_def
        parseFunctionForFeed_def world_self_def world0_def atomTokens_def link_self_def)
  finally have f: "findFeedUrl world_self [] link_self
                   = ([''http://x/atom.xml'', ''http://x/atom.xml''], Inr [])" .
  have "checkLink world_self 9000000000000 [] link_self
        = checkForArticles world_self 9000000000000 [''http://x/atom.xml'', ''http://x/atom.xml'']
            (link_self\<lparr>State := LinkHasFeed, FeedUrl := []\<rparr>)"
    using s f by (simp add: checkLink_IsNew_eq)
  also have "\<dots> = ([''http://x/atom.xml'', ''http://x/atom.xml'', ''http://x/atom.xml''],
          link_self\<lparr>State := LinkHasFeed, LastChecked := 9000000000000,
                    Articles := [\<lparr>ArtUrl = ''http://x/e1'', ArtTitle = ''Entry'',
                                  PubDate = 2000\<rparr>]\<rparr>)"
    by (simp add: eval_defs world_self_def atomTokens_def link_self_def)
  finally have 3: "checkLink world_self 9000000000000 [] link_self
       = ([''http://x/atom.xml'', ''http://x/atom.xml'', ''http://x/atom.xml''],
          link_self\<lparr>State := LinkHasFeed, LastChecked := 9000000000000,
                    Articles := [\<lparr>ArtUrl = ''http://x/e1'', ArtTitle = ''Entry'',
                                  PubDate = 2000\<rparr>]\<rparr>)" .
  have 4: "State (snd (checkLink world_self 9000000000000 [] link_self)) = LinkHasFeed"
    and 5: "FeedUrl (snd (checkLink world_self 9000000000000 [] link_self)) = []"
    unfolding 3 by (simp_all add: link_self_def)
  from 1 2 3 4 5 show ?thesis by blast
qed

end
